theory Spec2Isabelle
  imports
    Complex_Main
    "HOL-Library.Multiset"
    "HOL-Library.Sublist"
    "HOL-Library.Char_ord"
    "HOL-Library.List_Lexorder"
begin

section \<open>Python values, exceptions and the libraries outside the repository\<close>

text \<open>
  \<^verbatim>\<open>app1.py\<close> is a Flask application around two functions, \<^verbatim>\<open>process_and_format\<close> and
  \<^verbatim>\<open>process_combined_files\<close>, that load CSV files with pandas, filter, sort and
  concatenate the frames, write them with xlsxwriter and restyle the written workbook
  with openpyxl. The embedding keeps the source's names. What pandas, numpy, xlsxwriter
  and openpyxl do is not code of the repository: each library call the source makes is a
  definition of its own here, named after the call.

  An exception is a value of \<open>error\<close>; a function that can raise returns
  \<open>error + 'a\<close>, with \<open>Inl\<close> for the exception.
\<close>

datatype error =
    ValueError string
  | TypeError
  | KeyError string
  | ParserError
  | OSError

text \<open>Running on after a call that can raise: the exception, if any, propagates.\<close>

definition and_then :: "error + 'a \<Rightarrow> ('a \<Rightarrow> error + 'b) \<Rightarrow> error + 'b" where
  "and_then m f = (case m of Inl e \<Rightarrow> Inl e | Inr x \<Rightarrow> f x)"

text \<open>
  The values pandas holds after \<^verbatim>\<open>pd.read_csv\<close>: a missing field (\<open>NaN\<close>), a number, a
  text, a boolean. Numbers are the rationals that the finite int64 and float64 values
  denote; they are ordered as Python orders them.
\<close>

datatype cell = NaN | Num rat | Str string | Bool bool

text \<open>
  A DataFrame: the ordered column names and the rows, each row giving the cells in
  column order. The row labels of the pandas index are left out: the source writes with
  \<^verbatim>\<open>index=False\<close> and concatenates with \<^verbatim>\<open>ignore_index=True\<close>, so no label is observed.
\<close>

record dataframe =
  columns :: "string list"
  rows :: "cell list list"

text \<open>
  What is outside the repository and not fixed by the source: numpy's
  \<^verbatim>\<open>argsort(kind='quicksort')\<close>, which pandas calls from \<^verbatim>\<open>sort_values\<close> and whose order
  among equal keys is not documented; the number openpyxl loads back from a numeric cell
  that xlsxwriter wrote (xlsxwriter writes sixteen significant digits) and Python's
  \<^verbatim>\<open>str\<close> of it; what is loaded back from a cell whose text xlsxwriter does not write
  as it is (a text it takes for a formula or a link, or one longer than a cell holds),
  which may depend on the whole frame and on the place of the cell; and whether an
  input/output call on a path raises.

  A value of an openpyxl cell is \<^verbatim>\<open>None\<close>, a text, a number or a boolean.
\<close>

datatype xl_value = XNone | XStr string | XNum rat | XBool bool

datatype io_op =
    TempFile string
  | SaveUpload string
  | WriteXlsx string
  | LoadXlsx string
  | SaveXlsx string
  | ReadFile string
  | ZipWrite string

record env =
  argsort :: "cell list \<Rightarrow> nat list"
  xl_number :: "rat \<Rightarrow> rat"
  num_str :: "rat \<Rightarrow> string"
  xl_special :: "dataframe \<Rightarrow> nat \<Rightarrow> nat \<Rightarrow> xl_value"
  fails :: "io_op \<Rightarrow> bool"

subsection \<open>Column access\<close>

fun col_pos :: "string \<Rightarrow> string list \<Rightarrow> nat option" where
  "col_pos c [] = None"
| "col_pos c (x # xs) = (if x = c then Some 0 else map_option Suc (col_pos c xs))"

text \<open>A frame is rectangular; a row too short for the position reads as missing.\<close>

definition cell_at :: "cell list \<Rightarrow> nat \<Rightarrow> cell" where
  "cell_at r j = (if j < length r then r ! j else NaN)"

text \<open>\<^verbatim>\<open>df[name]\<close>: the column's values, or KeyError.\<close>

definition get_column :: "dataframe \<Rightarrow> string \<Rightarrow> error + cell list" where
  "get_column df name =
     (case col_pos name (columns df) of
        None \<Rightarrow> Inl (KeyError name)
      | Some j \<Rightarrow> Inr (map (\<lambda>r. cell_at r j) (rows df)))"

text \<open>\<^verbatim>\<open>series == 'text'\<close>: elementwise, true exactly at a cell holding that text.\<close>

definition eq_str :: "cell list \<Rightarrow> string \<Rightarrow> bool list" where
  "eq_str series s = map (\<lambda>v. v = Str s) series"

text \<open>\<^verbatim>\<open>df[mask]\<close>: the rows at which the mask is true, in order.\<close>

definition boolean_index :: "dataframe \<Rightarrow> bool list \<Rightarrow> dataframe" where
  "boolean_index df msk = df\<lparr>rows := map fst (filter snd (zip (rows df) msk))\<rparr>"

subsection \<open>\<^verbatim>\<open>sort_values(by=..., ascending=False)\<close>\<close>

definition isna :: "cell \<Rightarrow> bool" where
  "isna v = (v = NaN)"

fun is_text :: "cell \<Rightarrow> bool" where
  "is_text (Str s) = True"
| "is_text v = False"

fun number_of :: "cell \<Rightarrow> rat option" where
  "number_of (Num q) = Some q"
| "number_of (Bool b) = Some (if b then 1 else 0)"
| "number_of v = None"

text \<open>
  Python's \<open>\<le>\<close> on the values of a column: numbers (and booleans, as 0 and 1) by
  value, texts lexicographically by character code. A text and a number are not ordered:
  comparing them raises TypeError, so sorting keys of both kinds raises.
\<close>

fun py_le :: "cell \<Rightarrow> cell \<Rightarrow> bool" where
  "py_le (Str a) (Str b) = (a \<le> b)"
| "py_le a b =
     (case number_of a of
        None \<Rightarrow> False
      | Some x \<Rightarrow> (case number_of b of None \<Rightarrow> False | Some y \<Rightarrow> x \<le> y))"

definition comparable :: "cell list \<Rightarrow> bool" where
  "comparable ks =
     (list_all is_text ks \<or> list_all (\<lambda>k. number_of k \<noteq> None) ks)"

text \<open>
  pandas' \<^verbatim>\<open>nargsort\<close> with \<^verbatim>\<open>ascending=False, na_position='last'\<close>: the positions of the
  non-missing keys are reversed, sorted ascending by numpy's argsort, reversed again, and
  the positions of the missing keys follow in their input order.
\<close>

definition nargsort :: "(cell list \<Rightarrow> nat list) \<Rightarrow> cell list \<Rightarrow> error + nat list" where
  "nargsort asort items =
     (let idx = [0..<length items];
          non_nan_idx = rev (filter (\<lambda>i. \<not> isna (items ! i)) idx);
          non_nans = map (\<lambda>i. items ! i) non_nan_idx;
          nan_idx = filter (\<lambda>i. isna (items ! i)) idx
      in if \<not> comparable non_nans then Inl TypeError
         else Inr (rev (map (\<lambda>k. non_nan_idx ! k) (asort non_nans)) @ nan_idx))"

definition sort_values :: "(cell list \<Rightarrow> nat list) \<Rightarrow> dataframe \<Rightarrow> string \<Rightarrow> error + dataframe" where
  "sort_values asort df name =
     (case get_column df name of
        Inl e \<Rightarrow> Inl e
      | Inr items \<Rightarrow>
          (case nargsort asort items of
             Inl e \<Rightarrow> Inl e
           | Inr indexer \<Rightarrow> Inr (df\<lparr>rows := map (\<lambda>i. rows df ! i) indexer\<rparr>)))"

text \<open>
  What numpy documents of its argsort: on keys it can compare, the result is a
  permutation of the positions that lists the keys in ascending order.
\<close>

definition argsort_ok :: "(cell list \<Rightarrow> nat list) \<Rightarrow> bool" where
  "argsort_ok asort =
     (\<forall>ks. comparable ks \<longrightarrow>
        mset (asort ks) = mset [0..<length ks] \<and>
        sorted_wrt py_le (map (\<lambda>i. ks ! i) (asort ks)))"

section \<open>\<^verbatim>\<open>process_and_format\<close>: the check of the columns and the split\<close>

definition required_cols :: "string list" where
  "required_cols = [''ISGOVTCAN'', ''DIVNCODE'', ''LASTDEMAND'']"

text \<open>Python's \<^verbatim>\<open>repr\<close> of a string without quotes or escapes, and of a list of them.\<close>

definition py_repr_str :: "string \<Rightarrow> string" where
  "py_repr_str s = [CHR 0x27] @ s @ [CHR 0x27]"

fun py_join :: "string \<Rightarrow> string list \<Rightarrow> string" where
  "py_join sep [] = []"
| "py_join sep [x] = x"
| "py_join sep (x # y # ys) = x @ sep @ py_join sep (y # ys)"

definition py_repr_list :: "string list \<Rightarrow> string" where
  "py_repr_list xs = ''['' @ py_join '', '' (map py_repr_str xs) @ '']''"

definition required_msg :: string where
  "required_msg =
     ''Required columns '' @ py_repr_list required_cols @ '' do not exist in the dataset.''"

text \<open>Lines 31 to 34: the check of the required columns.\<close>

definition check_required :: "dataframe \<Rightarrow> error + unit" where
  "check_required df =
     (if \<not> list_all (\<lambda>col. col \<in> set (columns df)) required_cols
      then Inl (ValueError required_msg)
      else Inr ())"

text \<open>
  Lines 37 and 38: \<^verbatim>\<open>df[df['ISGOVTCAN'] == flag].sort_values(by='LASTDEMAND',
  ascending=False)\<close>, for the flag \<^verbatim>\<open>'Yes'\<close> and for the flag \<^verbatim>\<open>'No'\<close>.
\<close>

definition govt_split :: "env \<Rightarrow> dataframe \<Rightarrow> string \<Rightarrow> error + dataframe" where
  "govt_split ev df flag =
     (case get_column df ''ISGOVTCAN'' of
        Inl e \<Rightarrow> Inl e
      | Inr series \<Rightarrow>
          sort_values (argsort ev) (boolean_index df (eq_str series flag)) ''LASTDEMAND'')"

definition df_yes :: "env \<Rightarrow> dataframe \<Rightarrow> error + dataframe" where
  "df_yes ev df = govt_split ev df ''Yes''"

definition df_no :: "env \<Rightarrow> dataframe \<Rightarrow> error + dataframe" where
  "df_no ev df = govt_split ev df ''No''"

text \<open>The value a row holds in a named column of its frame (missing when there is none).\<close>

definition value_in :: "dataframe \<Rightarrow> string \<Rightarrow> cell list \<Rightarrow> cell" where
  "value_in df name r =
     (case col_pos name (columns df) of None \<Rightarrow> NaN | Some j \<Rightarrow> cell_at r j)"


text \<open>
  A column as \<^verbatim>\<open>read_csv\<close> infers it holds, besides missing values, only numbers or only
  texts; then sorting by it does not raise.
\<close>

definition sortable_column :: "dataframe \<Rightarrow> string \<Rightarrow> bool" where
  "sortable_column df name =
     (case get_column df name of
        Inl e \<Rightarrow> False
      | Inr items \<Rightarrow> comparable (filter (\<lambda>v. \<not> isna v) items))"

section \<open>Writing the workbook\<close>

text \<open>
  A cell of an openpyxl worksheet: its value and the parts of its style the source sets.
\<close>

record xl_cell =
  cvalue :: xl_value
  bold :: bool
  horizontal :: "string option"
  vertical :: "string option"
  fill :: "string option"

text \<open>
  A worksheet: its title, its grid of cells (the first row is row 1, the header) and
  \<^verbatim>\<open>column_dimensions[letter].width\<close>. A workbook is the list of its sheets.
\<close>

record worksheet =
  title :: string
  cells :: "xl_cell list list"
  column_width :: "string \<Rightarrow> nat option"

type_synonym workbook = "worksheet list"

definition plain_cell :: "xl_value \<Rightarrow> xl_cell" where
  "plain_cell v = \<lparr>cvalue = v, bold = False, horizontal = None, vertical = None, fill = None\<rparr>"

text \<open>The header style pandas writes: bold, centred horizontally, aligned to the top.\<close>

definition header_cell :: "xl_value \<Rightarrow> xl_cell" where
  "header_cell v =
     \<lparr>cvalue = v, bold = True, horizontal = Some ''center'', vertical = Some ''top'', fill = None\<rparr>"

text \<open>
  The texts xlsxwriter's \<^verbatim>\<open>write\<close> hands to \<^verbatim>\<open>write_string\<close> and that are loaded back
  as they are: not empty, at most 32767 characters, not taken for a formula (a leading
  \<^verbatim>\<open>=\<close> or \<^verbatim>\<open>{\<close>) nor for a link (no colon at all), without an underscore (which
  starts the escapes \<^verbatim>\<open>_xHHHH_\<close> of the file format), and made of printable ASCII
  characters only.
\<close>

definition plain_text :: "string \<Rightarrow> bool" where
  "plain_text s =
     (s \<noteq> [] \<and> length s \<le> 32767 \<and> hd s \<noteq> CHR ''='' \<and> hd s \<noteq> CHR ''{''
      \<and> CHR '':'' \<notin> set s \<and> CHR ''_'' \<notin> set s
      \<and> list_all (\<lambda>c. 32 \<le> (of_char c :: nat) \<and> (of_char c :: nat) \<le> 126) s)"

text \<open>
  What openpyxl loads back from the cell at \<open>row\<close> (0 for the header) and \<open>col\<close> of the
  sheet that pandas and xlsxwriter write for the frame \<open>df\<close>, when the frame holds \<open>v\<close>
  there. A missing value and an empty text leave no value; a boolean is kept; a number
  comes back as \<open>xl_number\<close> gives it; a plain text is kept, and for any other text the
  environment says what is loaded.
\<close>

fun cell_written :: "env \<Rightarrow> dataframe \<Rightarrow> nat \<Rightarrow> nat \<Rightarrow> cell \<Rightarrow> xl_value" where
  "cell_written ev df row col NaN = XNone"
| "cell_written ev df row col (Num q) = XNum (xl_number ev q)"
| "cell_written ev df row col (Bool b) = XBool b"
| "cell_written ev df row col (Str s) =
     (if s = [] then XNone else if plain_text s then XStr s else xl_special ev df row col)"

definition header_values :: "env \<Rightarrow> dataframe \<Rightarrow> xl_value list" where
  "header_values ev df = map (\<lambda>(j, c). cell_written ev df 0 j (Str c)) (enumerate 0 (columns df))"

definition row_values :: "env \<Rightarrow> dataframe \<Rightarrow> nat \<Rightarrow> cell list \<Rightarrow> xl_value list" where
  "row_values ev df i r = map (\<lambda>(j, v). cell_written ev df (Suc i) j v) (enumerate 0 r)"

definition body_values :: "env \<Rightarrow> dataframe \<Rightarrow> cell list list \<Rightarrow> xl_value list list" where
  "body_values ev df rs = map (\<lambda>(i, r). row_values ev df i r) (enumerate 0 rs)"

text \<open>
  \<^verbatim>\<open>df.to_excel(writer, sheet_name=..., index=False)\<close> with the xlsxwriter engine. pandas
  raises ValueError for a frame of more than \<open>2^20\<close> rows or \<open>2^14\<close> columns; the header
  takes row 1, and xlsxwriter drops a row that falls beyond row \<open>2^20\<close> of the sheet, so
  at most 1048575 rows of the frame are written.
\<close>

definition to_excel :: "env \<Rightarrow> dataframe \<Rightarrow> string \<Rightarrow> error + worksheet" where
  "to_excel ev df sheet_name =
     (if length (rows df) > 1048576 \<or> length (columns df) > 16384
      then Inl (ValueError ''This sheet is too large!'')
      else Inr \<lparr>title = sheet_name,
                cells = map header_cell (header_values ev df)
                        # map (map plain_cell) (body_values ev df (take 1048575 (rows df))),
                column_width = (\<lambda>l. None)\<rparr>)"

text \<open>
  The \<^verbatim>\<open>with pd.ExcelWriter(output_file, engine='xlsxwriter')\<close> block: the sheets are
  written in order and the file is saved when the block is left.
\<close>

fun excel_writer :: "env \<Rightarrow> string \<Rightarrow> (dataframe \<times> string) list \<Rightarrow> error + workbook" where
  "excel_writer ev output_file [] =
     (if fails ev (WriteXlsx output_file) then Inl OSError else Inr [])"
| "excel_writer ev output_file ((df, sheet_name) # rest) =
     (case to_excel ev df sheet_name of
        Inl e \<Rightarrow> Inl e
      | Inr ws \<Rightarrow>
          (case excel_writer ev output_file rest of
             Inl e \<Rightarrow> Inl e
           | Inr wss \<Rightarrow> Inr (ws # wss)))"

text \<open>\<^verbatim>\<open>load_workbook(output_file)\<close> gives back the workbook that was written there.\<close>

definition load_workbook :: "env \<Rightarrow> string \<Rightarrow> workbook \<Rightarrow> error + workbook" where
  "load_workbook ev output_file written =
     (if fails ev (LoadXlsx output_file) then Inl OSError else Inr written)"

definition save :: "env \<Rightarrow> string \<Rightarrow> workbook \<Rightarrow> error + workbook" where
  "save ev output_file wb =
     (if fails ev (SaveXlsx output_file) then Inl OSError else Inr wb)"

section \<open>Styling the header row and sizing the columns\<close>

text \<open>
  openpyxl's \<^verbatim>\<open>get_column_letter\<close>: the loop of \<^verbatim>\<open>_get_column_letter\<close> collects the letters
  from the last to the first; indices outside 1 to 18278 raise ValueError.
\<close>

function letters_loop :: "nat \<Rightarrow> string \<Rightarrow> string" where
  "letters_loop col_idx letters =
     (if col_idx > 0
      then (if col_idx mod 26 = 0
            then letters_loop (col_idx div 26 - 1) (letters @ [char_of (26 + 64 :: nat)])
            else letters_loop (col_idx div 26) (letters @ [char_of (col_idx mod 26 + 64)]))
      else letters)"
  by pat_completeness auto
termination
  by (relation "measure fst") auto

definition get_column_letter :: "nat \<Rightarrow> error + string" where
  "get_column_letter idx =
     (if 1 \<le> idx \<and> idx \<le> 18278 then Inr (rev (letters_loop idx []))
      else Inl (ValueError ''Invalid column index''))"

text \<open>Row 1 of a sheet, \<^verbatim>\<open>ws[1]\<close>, and \<^verbatim>\<open>ws.max_row\<close> (1 for an empty sheet).\<close>

definition row1 :: "worksheet \<Rightarrow> xl_cell list" where
  "row1 ws = (case cells ws of [] \<Rightarrow> [] | r # rs \<Rightarrow> r)"

definition max_row :: "worksheet \<Rightarrow> nat" where
  "max_row ws = (if cells ws = [] then 1 else length (cells ws))"

text \<open>\<^verbatim>\<open>ws.cell(row=row, column=col_idx).value\<close>; a cell that was never written holds None.\<close>

definition cell_value :: "worksheet \<Rightarrow> nat \<Rightarrow> nat \<Rightarrow> xl_value" where
  "cell_value ws row col_idx =
     (if 1 \<le> row \<and> row \<le> length (cells ws) \<and> 1 \<le> col_idx
          \<and> col_idx \<le> length (cells ws ! (row - 1))
      then cvalue (cells ws ! (row - 1) ! (col_idx - 1))
      else XNone)"

text \<open>Python's truth value, \<^verbatim>\<open>value or ""\<close>, and \<^verbatim>\<open>str\<close>.\<close>

fun truthy :: "xl_value \<Rightarrow> bool" where
  "truthy XNone = False"
| "truthy (XStr s) = (s \<noteq> [])"
| "truthy (XNum q) = (q \<noteq> 0)"
| "truthy (XBool b) = b"

definition or_empty :: "xl_value \<Rightarrow> xl_value" where
  "or_empty v = (if truthy v then v else XStr [])"

fun py_str :: "env \<Rightarrow> xl_value \<Rightarrow> string" where
  "py_str ev XNone = ''None''"
| "py_str ev (XStr s) = s"
| "py_str ev (XNum q) = num_str ev q"
| "py_str ev (XBool b) = (if b then ''True'' else ''False'')"

text \<open>
  Line 67: \<^verbatim>\<open>max(len(str(ws.cell(row=row, column=col_idx).value or "")) for row in
  range(1, ws.max_row + 1))\<close>. The range is never empty, and lengths are not negative.
\<close>

definition max_length :: "env \<Rightarrow> worksheet \<Rightarrow> nat \<Rightarrow> nat" where
  "max_length ev ws col_idx =
     fold max (map (\<lambda>row. length (py_str ev (or_empty (cell_value ws row col_idx))))
                   [1..<max_row ws + 1]) 0"

text \<open>Lines 59 to 64: the font, the alignment and, under the letters A and P, the fill.\<close>

definition style_header_cell :: "string \<Rightarrow> xl_cell \<Rightarrow> xl_cell" where
  "style_header_cell col_letter c =
     (let c' = c\<lparr>bold := True, horizontal := Some ''center'', vertical := Some ''center''\<rparr>
      in if col_letter \<in> set [''A'', ''P''] then c'\<lparr>fill := Some ''FFC000''\<rparr> else c')"

definition set_header :: "worksheet \<Rightarrow> nat \<Rightarrow> xl_cell \<Rightarrow> worksheet" where
  "set_header ws col_idx c =
     ws\<lparr>cells := (case cells ws of [] \<Rightarrow> [] | r # rs \<Rightarrow> r[col_idx - 1 := c] # rs)\<rparr>"

text \<open>One turn of the loop over \<^verbatim>\<open>enumerate(ws[1], start=1)\<close>, lines 57 to 68.\<close>

definition style_column :: "env \<Rightarrow> nat \<Rightarrow> worksheet \<Rightarrow> error + worksheet" where
  "style_column ev col_idx ws =
     (case get_column_letter col_idx of
        Inl e \<Rightarrow> Inl e
      | Inr col_letter \<Rightarrow>
          (let ws1 = set_header ws col_idx (style_header_cell col_letter (row1 ws ! (col_idx - 1)))
           in Inr (ws1\<lparr>column_width :=
                     (column_width ws1)(col_letter \<mapsto> max_length ev ws1 col_idx + 2)\<rparr>)))"

fun style_loop :: "env \<Rightarrow> nat list \<Rightarrow> worksheet \<Rightarrow> error + worksheet" where
  "style_loop ev [] ws = Inr ws"
| "style_loop ev (col_idx # rest) ws =
     (case style_column ev col_idx ws of
        Inl e \<Rightarrow> Inl e
      | Inr ws' \<Rightarrow> style_loop ev rest ws')"

definition style_sheet :: "env \<Rightarrow> worksheet \<Rightarrow> error + worksheet" where
  "style_sheet ev ws = style_loop ev [1..<length (row1 ws) + 1] ws"

text \<open>
  \<^verbatim>\<open>for sheet_name in [...]: ws = wb[sheet_name]; ...\<close>: the named sheet is styled in
  place; a name the workbook does not have raises KeyError.
\<close>

fun style_named :: "env \<Rightarrow> string \<Rightarrow> workbook \<Rightarrow> error + workbook" where
  "style_named ev sheet_name [] = Inl (KeyError sheet_name)"
| "style_named ev sheet_name (ws # wss) =
     (if title ws = sheet_name
      then (case style_sheet ev ws of Inl e \<Rightarrow> Inl e | Inr ws' \<Rightarrow> Inr (ws' # wss))
      else (case style_named ev sheet_name wss of Inl e \<Rightarrow> Inl e | Inr wss' \<Rightarrow> Inr (ws # wss')))"

fun style_sheets :: "env \<Rightarrow> string list \<Rightarrow> workbook \<Rightarrow> error + workbook" where
  "style_sheets ev [] wb = Inr wb"
| "style_sheets ev (sheet_name # rest) wb =
     (case style_named ev sheet_name wb of
        Inl e \<Rightarrow> Inl e
      | Inr wb' \<Rightarrow> style_sheets ev rest wb')"

text \<open>
  The header style as a property of a sheet: every cell of row 1 is bold and centred, a
  cell of row 1 carries the solid fill exactly at the positions 1 and 16, and no cell
  below row 1 carries a fill.
\<close>

definition header_styled :: "worksheet \<Rightarrow> bool" where
  "header_styled ws =
     ((\<forall>c\<in>set (row1 ws). bold c \<and> horizontal c = Some ''center'' \<and> vertical c = Some ''center'')
      \<and> (\<forall>j<length (row1 ws).
            fill (row1 ws ! j) = (if j + 1 = 1 \<or> j + 1 = 16 then Some ''FFC000'' else None))
      \<and> (\<forall>r\<in>set (tl (cells ws)). \<forall>c\<in>set r. fill c = None))"

text \<open>No cell of the sheet carries a fill, as in a sheet pandas has just written.\<close>

definition unfilled :: "worksheet \<Rightarrow> bool" where
  "unfilled ws = (\<forall>r\<in>set (cells ws). \<forall>c\<in>set r. fill c = None)"

text \<open>The values of a sheet, row by row, and the values \<open>to_excel\<close> writes for a frame.\<close>

definition sheet_values :: "worksheet \<Rightarrow> xl_value list list" where
  "sheet_values ws = map (map cvalue) (cells ws)"

definition table_values :: "env \<Rightarrow> dataframe \<Rightarrow> xl_value list list" where
  "table_values ev df = header_values ev df # body_values ev df (take 1048575 (rows df))"

section \<open>The two processing functions\<close>

text \<open>
  A CSV file is represented by what \<^verbatim>\<open>pd.read_csv\<close> makes of it: the frame, or the
  exception it raises. \<^verbatim>\<open>process_and_format(file_path, output_file)\<close> returns nothing; the
  model returns the workbook it leaves at \<^verbatim>\<open>output_file\<close>, or the exception.
\<close>

type_synonym csv_file = "error + dataframe"

definition process_and_format :: "env \<Rightarrow> csv_file \<Rightarrow> string \<Rightarrow> error + workbook" where
  "process_and_format ev file output_file =
     and_then file (\<lambda>df.
     and_then (check_required df) (\<lambda>u.
     and_then (df_yes ev df) (\<lambda>y.
     and_then (df_no ev df) (\<lambda>n.
     and_then (excel_writer ev output_file [(y, ''GovtCAN_Yes''), (n, ''GovtCAN_No'')]) (\<lambda>written.
     and_then (load_workbook ev output_file written) (\<lambda>wb.
     and_then (style_sheets ev [''GovtCAN_Yes'', ''GovtCAN_No''] wb) (\<lambda>wb'.
     save ev output_file wb')))))))"

text \<open>
  \<^verbatim>\<open>df[name] = text\<close>: an existing column is overwritten in place, a new one is appended
  as the last column.
\<close>

definition set_column :: "dataframe \<Rightarrow> string \<Rightarrow> cell \<Rightarrow> dataframe" where
  "set_column df name v =
     (case col_pos name (columns df) of
        Some j \<Rightarrow> df\<lparr>rows := map (\<lambda>r. r[j := v]) (rows df)\<rparr>
      | None \<Rightarrow> df\<lparr>columns := columns df @ [name], rows := map (\<lambda>r. r @ [v]) (rows df)\<rparr>)"

text \<open>
  \<^verbatim>\<open>pd.concat([a, b], ignore_index=True)\<close>: the columns of \<open>a\<close>, then those of \<open>b\<close> that
  \<open>a\<close> does not have; the rows of \<open>a\<close>, then the rows of \<open>b\<close>, each laid out in the new
  column order, missing where its frame has no such column.
\<close>

definition pd_concat :: "dataframe \<Rightarrow> dataframe \<Rightarrow> dataframe" where
  "pd_concat a b =
     (let cols = columns a @ filter (\<lambda>c. c \<notin> set (columns a)) (columns b)
      in \<lparr>columns = cols,
          rows = map (\<lambda>r. map (\<lambda>c. value_in a c r) cols) (rows a)
               @ map (\<lambda>r. map (\<lambda>c. value_in b c r) cols) (rows b)\<rparr>)"

text \<open>The invariant of a frame: every row has one cell for each column.\<close>

definition rectangular :: "dataframe \<Rightarrow> bool" where
  "rectangular df = list_all (\<lambda>r. length r = length (columns df)) (rows df)"

text \<open>What \<open>set_column\<close> does to one row of the frame.\<close>

definition set_cell :: "dataframe \<Rightarrow> string \<Rightarrow> cell \<Rightarrow> cell list \<Rightarrow> cell list" where
  "set_cell df name v r =
     (case col_pos name (columns df) of Some j \<Rightarrow> r[j := v] | None \<Rightarrow> r @ [v])"

text \<open>Lines 81 to 86: the two label columns and the concatenation.\<close>

definition combined_df :: "dataframe \<Rightarrow> dataframe \<Rightarrow> dataframe" where
  "combined_df df_a df_b =
     pd_concat (set_column df_a ''HCC Type'' (Str ''A'')) (set_column df_b ''HCC Type'' (Str ''B''))"

definition process_combined_files :: "env \<Rightarrow> csv_file \<Rightarrow> csv_file \<Rightarrow> string \<Rightarrow> error + workbook" where
  "process_combined_files ev file_a file_b output_file =
     and_then file_a (\<lambda>df_a.
     and_then file_b (\<lambda>df_b.
     and_then (excel_writer ev output_file [(combined_df df_a df_b, ''Combined'')]) (\<lambda>written.
     and_then (load_workbook ev output_file written) (\<lambda>wb_combined.
     and_then (style_named ev ''Combined'' wb_combined) (\<lambda>wb'.
     save ev output_file wb')))))"

section \<open>What the sheets are to hold\<close>



section \<open>The request handlers\<close>

text \<open>
  Lines 19 and 20. \<^verbatim>\<open>rsplit('.', 1)[1]\<close> is the text after the last dot; \<^verbatim>\<open>lower\<close> is
  taken on the ASCII letters, which are the only ones it can turn into \<^verbatim>\<open>csv\<close>.
\<close>

definition ascii_lower :: "char \<Rightarrow> char" where
  "ascii_lower c =
     (if CHR ''A'' \<le> c \<and> c \<le> CHR ''Z'' then char_of (of_char c + 32 :: nat) else c)"

definition allowed_file :: "string \<Rightarrow> bool" where
  "allowed_file fname =
     (CHR ''.'' \<in> set fname \<and>
      map ascii_lower (rev (takeWhile (\<lambda>c. c \<noteq> CHR ''.'') (rev fname))) \<in> set [''csv''])"

text \<open>
  An uploaded file: its name and its content as \<^verbatim>\<open>read_csv\<close> reads it once saved. A
  response either redirects to the index page, after flashing a message (followed by
  \<^verbatim>\<open>str(e)\<close> when an exception was caught), or sends a file.
\<close>

record upload =
  filename :: string
  content :: csv_file

datatype payload = Xlsx workbook | Zip "(string \<times> workbook) list"

datatype response = Redirect string "error option" | SendFile string payload

text \<open>
  The \<^verbatim>\<open>try\<close> block of \<^verbatim>\<open>process_single\<close>, lines 140 to 156. The names of the temporary
  files are those \<^verbatim>\<open>tempfile\<close> hands out; they are distinct.
\<close>

definition single_try :: "env \<Rightarrow> upload \<Rightarrow> string \<Rightarrow> string \<Rightarrow> error + workbook" where
  "single_try ev file temp_input_path temp_output_path =
     (if fails ev (TempFile temp_input_path) \<or> fails ev (SaveUpload temp_input_path)
         \<or> fails ev (TempFile temp_output_path)
      then Inl OSError
      else and_then (process_and_format ev (content file) temp_output_path) (\<lambda>wb.
           if fails ev (ReadFile temp_output_path) then Inl OSError else Inr wb))"

definition process_single ::
  "env \<Rightarrow> upload option \<Rightarrow> string \<Rightarrow> string \<Rightarrow> string \<Rightarrow> response" where
  "process_single ev file_field category temp_input_path temp_output_path =
     (case file_field of
        None \<Rightarrow> Redirect ''No file selected'' None
      | Some file \<Rightarrow>
          if filename file = [] then Redirect ''No file selected'' None
          else if allowed_file (filename file)
          then (case single_try ev file temp_input_path temp_output_path of
                  Inl e \<Rightarrow> Redirect ''Error processing file: '' (Some e)
                | Inr file_data \<Rightarrow>
                    SendFile (''Unbilled_CAT_'' @ category @ ''.xlsx'') (Xlsx file_data))
          else Redirect ''Invalid file type. Please upload a CSV file.'' None)"

record temp_paths =
  temp_a_path :: string
  temp_b_path :: string
  temp_out_a_path :: string
  temp_out_b_path :: string
  temp_combined_path :: string

text \<open>The \<^verbatim>\<open>try\<close> block of \<^verbatim>\<open>process_combined\<close>, lines 211 to 250.\<close>

definition combined_try ::
  "env \<Rightarrow> upload \<Rightarrow> upload \<Rightarrow> temp_paths \<Rightarrow> error + (string \<times> workbook) list" where
  "combined_try ev file_a file_b tp =
     (if fails ev (TempFile (temp_a_path tp)) \<or> fails ev (SaveUpload (temp_a_path tp))
         \<or> fails ev (TempFile (temp_b_path tp)) \<or> fails ev (SaveUpload (temp_b_path tp))
         \<or> fails ev (TempFile (temp_out_a_path tp)) \<or> fails ev (TempFile (temp_out_b_path tp))
         \<or> fails ev (TempFile (temp_combined_path tp))
      then Inl OSError
      else
        and_then (process_and_format ev (content file_a) (temp_out_a_path tp)) (\<lambda>out_a.
        and_then (process_and_format ev (content file_b) (temp_out_b_path tp)) (\<lambda>out_b.
        and_then (process_combined_files ev (content file_a) (content file_b)
                    (temp_combined_path tp)) (\<lambda>out_combined.
        if fails ev (ZipWrite (temp_out_a_path tp)) \<or> fails ev (ZipWrite (temp_out_b_path tp))
           \<or> fails ev (ZipWrite (temp_combined_path tp))
        then Inl OSError
        else Inr [(''Unbilled_CAT_A.xlsx'', out_a),
                  (''Unbilled_CAT_B.xlsx'', out_b),
                  (''Unbilled_CAT_A_and_B_Combined.xlsx'', out_combined)]))))"

definition process_combined ::
  "env \<Rightarrow> upload option \<Rightarrow> upload option \<Rightarrow> temp_paths \<Rightarrow> response" where
  "process_combined ev field_a field_b tp =
     (case field_a of
        None \<Rightarrow> Redirect ''Both Category A and B files are required'' None
      | Some file_a \<Rightarrow>
     (case field_b of
        None \<Rightarrow> Redirect ''Both Category A and B files are required'' None
      | Some file_b \<Rightarrow>
          if filename file_a = [] \<or> filename file_b = []
          then Redirect ''Both files must be selected'' None
          else if allowed_file (filename file_a) \<and> allowed_file (filename file_b)
          then (case combined_try ev file_a file_b tp of
                  Inl e \<Rightarrow> Redirect ''Error processing files: '' (Some e)
                | Inr entries \<Rightarrow> SendFile ''processed_files.zip'' (Zip entries))
          else Redirect ''Invalid file type. Please upload CSV files only.'' None))"

section \<open>A concrete environment and concrete inputs\<close>

text \<open>
  A stable argsort by insertion (it satisfies \<open>argsort_ok\<close>), the decimal rendering of
  whole numbers, and an environment for tables of small whole numbers and plain texts:
  such a number is loaded back as it is, and no input/output call fails. The tables below
  hold no other text, so what this environment loads for one is never looked at.
\<close>

fun insert_pos :: "cell list \<Rightarrow> nat \<Rightarrow> nat list \<Rightarrow> nat list" where
  "insert_pos ks i [] = [i]"
| "insert_pos ks i (j # js) =
     (if py_le (ks ! j) (ks ! i) then j # insert_pos ks i js else i # j # js)"

definition stable_argsort :: "cell list \<Rightarrow> nat list" where
  "stable_argsort ks = foldl (\<lambda>acc i. insert_pos ks i acc) [] [0..<length ks]"

fun dec_str :: "nat \<Rightarrow> string" where
  "dec_str n =
     (if n < 10 then [char_of (n + 48)] else dec_str (n div 10) @ [char_of (n mod 10 + 48)])"

definition stable_env :: env where
  "stable_env =
     \<lparr>argsort = stable_argsort, xl_number = (\<lambda>q. q), num_str = (\<lambda>q. dec_str (nat \<lfloor>q\<rfloor>)),
      xl_special = (\<lambda>df row col. XNone), fails = (\<lambda>op. False)\<rparr>"

text \<open>The table of the specification's end-to-end scenario.\<close>

definition scenario_df :: dataframe where
  "scenario_df =
     \<lparr>columns = [''ISGOVTCAN'', ''DIVNCODE'', ''LASTDEMAND''],
      rows = [[Str ''Yes'', Num 1, Num 100],
              [Str ''No'', Num 2, Num 50],
              [Str ''Yes'', Num 3, Num 200]]\<rparr>"

text \<open>
  Tables with flags that are not exactly \<^verbatim>\<open>Yes\<close> or \<^verbatim>\<open>No\<close>, a table whose
  \<^verbatim>\<open>LASTDEMAND\<close> column holds a text that is no number (so \<^verbatim>\<open>read_csv\<close> keeps the whole
  column as texts), and a table with missing values in that column.
\<close>

definition lower_flag_df :: dataframe where
  "lower_flag_df =
     \<lparr>columns = [''ISGOVTCAN'', ''DIVNCODE'', ''LASTDEMAND''],
      rows = [[Str ''Yes'', Num 1, Num 100],
              [Str ''yes'', Num 2, Num 50]]\<rparr>"

definition odd_flags_df :: dataframe where
  "odd_flags_df =
     \<lparr>columns = [''ISGOVTCAN'', ''DIVNCODE'', ''LASTDEMAND''],
      rows = [[Str ''yes'', Num 1, Num 10],
              [Str ''Yes'', Num 2, Num 20],
              [Str ''YES'', Num 3, Num 30],
              [Str ''Y'', Num 4, Num 40],
              [NaN, Num 5, Num 50],
              [Str ''No'', Num 6, Num 60]]\<rparr>"

definition text_demand_df :: dataframe where
  "text_demand_df =
     \<lparr>columns = [''ISGOVTCAN'', ''DIVNCODE'', ''LASTDEMAND''],
      rows = [[Str ''Yes'', Num 1, Str ''100''],
              [Str ''Yes'', Num 2, Str ''abc'']]\<rparr>"

definition gaps_df :: dataframe where
  "gaps_df =
     \<lparr>columns = [''DIVNCODE'', ''LASTDEMAND''],
      rows = [[Num 1, NaN], [Num 2, Num 50], [Num 3, NaN], [Num 4, Num 200], [Num 5, Num 100]]\<rparr>"


definition paid_df :: dataframe where
  "paid_df =
     \<lparr>columns = [''ISGOVTCAN'', ''DIVNCODE'', ''LASTDEMAND'', ''PAID''],
      rows = [[Str ''Yes'', Num 1, Num 100, Bool False]]\<rparr>"

definition tagged_df :: dataframe where
  "tagged_df =
     \<lparr>columns = [''ISGOVTCAN'', ''HCC Type'', ''DIVNCODE'', ''LASTDEMAND''],
      rows = [[Str ''Yes'', Str ''Z'', Num 7, Num 70]]\<rparr>"

definition short_df :: dataframe where
  "short_df = \<lparr>columns = [''ISGOVTCAN'', ''DIVNCODE''], rows = []\<rparr>"

text \<open>An environment in which saving the styled workbook to \<^verbatim>\<open>out.xlsx\<close> fails.\<close>

definition failing_save_env :: env where
  "failing_save_env = stable_env\<lparr>fails := (\<lambda>op. op = SaveXlsx ''out.xlsx'')\<rparr>"

definition upload_of :: "dataframe \<Rightarrow> upload" where
  "upload_of df = \<lparr>filename = ''data.csv'', content = Inr df\<rparr>"

definition some_paths :: temp_paths where
  "some_paths =
     \<lparr>temp_a_path = ''a.csv'', temp_b_path = ''b.csv'', temp_out_a_path = ''a.xlsx'',
      temp_out_b_path = ''b.xlsx'', temp_combined_path = ''c.xlsx''\<rparr>"

section \<open>The order the specification states for \<^verbatim>\<open>sortDescending\<close>\<close>

text \<open>
  For comparison with \<open>sort_values\<close>: the column interpreted numerically (a number is
  itself, a text is the number it spells as a plain decimal numeral, anything else has no
  numeric value); the rows with a numeric value in descending order, equal values in
  input order; then the other rows in input order.
\<close>

definition is_digit :: "char \<Rightarrow> bool" where
  "is_digit c = (CHR ''0'' \<le> c \<and> c \<le> CHR ''9'')"

definition digits_value :: "string \<Rightarrow> nat" where
  "digits_value ds = foldl (\<lambda>a c. 10 * a + (of_char c - 48)) 0 ds"

definition parse_unsigned :: "string \<Rightarrow> rat option" where
  "parse_unsigned s =
     (let ip = takeWhile (\<lambda>c. c \<noteq> CHR ''.'') s;
          fp = drop 1 (dropWhile (\<lambda>c. c \<noteq> CHR ''.'') s)
      in if list_all is_digit ip \<and> list_all is_digit fp \<and> (ip \<noteq> [] \<or> fp \<noteq> [])
         then Some (of_nat (digits_value ip) + of_nat (digits_value fp) / 10 ^ length fp)
         else None)"

fun parse_decimal :: "string \<Rightarrow> rat option" where
  "parse_decimal [] = None"
| "parse_decimal (c # cs) =
     (if c = CHR ''-'' then map_option uminus (parse_unsigned cs)
      else if c = CHR ''+'' then parse_unsigned cs
      else parse_unsigned (c # cs))"

fun spec_numeric :: "cell \<Rightarrow> rat option" where
  "spec_numeric (Num q) = Some q"
| "spec_numeric (Str s) = parse_decimal s"
| "spec_numeric v = None"

definition spec_sortDescending :: "dataframe \<Rightarrow> string \<Rightarrow> cell list list" where
  "spec_sortDescending df name =
     (let key = (\<lambda>r. spec_numeric (value_in df name r))
      in sort_key (\<lambda>r. case key r of Some q \<Rightarrow> - q | None \<Rightarrow> 0)
           (filter (\<lambda>r. key r \<noteq> None) (rows df))
         @ filter (\<lambda>r. key r = None) (rows df))"

section \<open>The column width the specification states\<close>

text \<open>
  For comparison with \<open>max_length\<close>: the greatest length over the cells of the column,
  header included, of the cell value rendered as a string, an empty or missing cell
  counting as the empty string.
\<close>

definition spec_max_length :: "env \<Rightarrow> worksheet \<Rightarrow> nat \<Rightarrow> nat" where
  "spec_max_length ev ws col_idx =
     fold max (map (\<lambda>row. length (case cell_value ws row col_idx of
                                      XNone \<Rightarrow> [] | XStr s \<Rightarrow> s | v \<Rightarrow> py_str ev v))
                   [1..<max_row ws + 1]) 0"

section \<open>Properties\<close>

lemma col_pos_None_iff: "col_pos c xs = None \<longleftrightarrow> c \<notin> set xs"
  by (induction xs) auto

lemma col_pos_less: "col_pos c xs = Some j \<Longrightarrow> j < length xs \<and> xs ! j = c"
  by (induction xs arbitrary: j) (auto split: if_splits)


subsection \<open>Selecting rows\<close>

lemma filter_zip_map: "map fst (filter snd (zip xs (map P xs))) = filter P xs"
  by (induction xs) auto

lemma rows_boolean_index:
  assumes "col_pos name (columns df) = Some j" and "get_column df name = Inr series"
  shows "rows (boolean_index df (eq_str series flag)) = filter (\<lambda>r. cell_at r j = Str flag) (rows df)"
proof -
  have "series = map (\<lambda>r. cell_at r j) (rows df)"
    using assms by (simp add: get_column_def)
  then have "eq_str series flag = map (\<lambda>r. cell_at r j = Str flag) (rows df)"
    by (simp add: eq_str_def)
  then show ?thesis
    by (simp add: boolean_index_def filter_zip_map)
qed

lemma columns_boolean_index: "columns (boolean_index df m) = columns df"
  by (simp add: boolean_index_def)

lemma map_nth_perm:
  assumes "mset ix = mset [0..<length xs]"
  shows "mset (map (\<lambda>i. xs ! i) ix) = mset xs"
proof -
  have "mset (map (\<lambda>i. xs ! i) ix) = image_mset (\<lambda>i. xs ! i) (mset ix)" by simp
  also have "\<dots> = image_mset (\<lambda>i. xs ! i) (mset [0..<length xs])" using assms by simp
  also have "\<dots> = mset (map (\<lambda>i. xs ! i) [0..<length xs])" by simp
  also have "\<dots> = mset xs" by (simp add: map_nth)
  finally show ?thesis .
qed

lemma py_le_trans: "py_le a b \<Longrightarrow> py_le b c \<Longrightarrow> py_le a c"
  by (cases a; cases b; cases c) (auto split: if_splits)

lemma py_le_total:
  assumes "comparable ks" "a \<in> set ks" "b \<in> set ks"
  shows "py_le a b \<or> py_le b a"
proof -
  from assms consider "is_text a \<and> is_text b" | "number_of a \<noteq> None \<and> number_of b \<noteq> None"
    by (auto simp: comparable_def list_all_iff)
  then show ?thesis
  proof cases
    case 1
    then show ?thesis by (cases a; cases b) auto
  next
    case 2
    then obtain x y where "number_of a = Some x" "number_of b = Some y" by auto
    then show ?thesis by (cases a; cases b) (auto split: if_splits)
  qed
qed

lemma set_insert_pos: "set (insert_pos ks i js) = insert i (set js)"
  by (induction js) auto

lemma mset_insert_pos: "mset (insert_pos ks i js) = add_mset i (mset js)"
  by (induction js) auto

lemma sorted_insert_pos:
  assumes "comparable ks" "i < length ks" "\<forall>j\<in>set js. j < length ks"
    and "sorted_wrt py_le (map (\<lambda>i. ks ! i) js)"
  shows "sorted_wrt py_le (map (\<lambda>i. ks ! i) (insert_pos ks i js))"
  using assms(3,4)
proof (induction js)
  case Nil
  then show ?case by simp
next
  case (Cons j js)
  show ?case
  proof (cases "py_le (ks ! j) (ks ! i)")
    case True
    with Cons show ?thesis by (auto simp: set_insert_pos)
  next
    case False
    have "ks ! i \<in> set ks" "ks ! j \<in> set ks" using assms(2) Cons.prems(1) by auto
    with False have ij: "py_le (ks ! i) (ks ! j)" using py_le_total[OF assms(1)] by blast
    have "\<forall>x\<in>set js. py_le (ks ! i) (ks ! x)"
      using Cons.prems(2) ij py_le_trans by auto
    with False ij Cons.prems(2) show ?thesis by simp
  qed
qed

lemma foldl_insert_pos:
  assumes "comparable ks"
  shows "\<forall>j\<in>set acc. j < length ks \<Longrightarrow> \<forall>j\<in>set is. j < length ks \<Longrightarrow>
     sorted_wrt py_le (map (\<lambda>i. ks ! i) acc) \<Longrightarrow>
     mset (foldl (\<lambda>acc i. insert_pos ks i acc) acc is) = mset acc + mset is \<and>
     sorted_wrt py_le (map (\<lambda>i. ks ! i) (foldl (\<lambda>acc i. insert_pos ks i acc) acc is))"
proof (induction "is" arbitrary: acc)
  case Nil
  then show ?case by simp
next
  case (Cons i "is")
  have s: "sorted_wrt py_le (map (\<lambda>i. ks ! i) (insert_pos ks i acc))"
    using sorted_insert_pos[OF assms] Cons.prems by simp
  have b: "\<forall>j\<in>set (insert_pos ks i acc). j < length ks"
    using Cons.prems by (simp add: set_insert_pos)
  from Cons.IH[OF b _ s] Cons.prems(2) show ?case
    by (simp add: mset_insert_pos)
qed

lemma stable_argsort_ok: "argsort_ok stable_argsort"
  unfolding argsort_ok_def stable_argsort_def
  using foldl_insert_pos[where acc = "[]"] by simp

subsection \<open>The sort\<close>

lemma comparable_subset:
  "comparable ks' \<Longrightarrow> set ks \<subseteq> set ks' \<Longrightarrow> comparable ks"
  by (auto simp: comparable_def list_all_iff)

lemma nargsort_Inr:
  assumes "comparable (filter (\<lambda>v. \<not> isna v) items)"
  shows "nargsort asort items =
    Inr (rev (map (\<lambda>k. rev (filter (\<lambda>i. \<not> isna (items ! i)) [0..<length items]) ! k)
           (asort (map (\<lambda>i. items ! i) (rev (filter (\<lambda>i. \<not> isna (items ! i)) [0..<length items])))))
         @ filter (\<lambda>i. isna (items ! i)) [0..<length items])"
proof -
  have "set (map (\<lambda>i. items ! i) (rev (filter (\<lambda>i. \<not> isna (items ! i)) [0..<length items])))
      \<subseteq> set (filter (\<lambda>v. \<not> isna v) items)"
    by auto
  then have "comparable (map (\<lambda>i. items ! i) (rev (filter (\<lambda>i. \<not> isna (items ! i)) [0..<length items])))"
    using assms comparable_subset by blast
  then show ?thesis by (simp add: nargsort_def Let_def)
qed

lemma nargsort_Inr_comparable:
  assumes "nargsort asort items = Inr ix"
  shows "comparable (filter (\<lambda>v. \<not> isna v) items)"
proof -
  have c: "comparable (map (\<lambda>i. items ! i) (rev (filter (\<lambda>i. \<not> isna (items ! i)) [0..<length items])))"
    using assms by (auto simp: nargsort_def Let_def split: if_splits)
  have "set (filter (\<lambda>v. \<not> isna v) items)
     \<subseteq> set (map (\<lambda>i. items ! i) (rev (filter (\<lambda>i. \<not> isna (items ! i)) [0..<length items])))"
    by (auto simp: in_set_conv_nth)
  with c show ?thesis using comparable_subset by blast
qed

text \<open>The shape of the indexer: a descending arrangement of the positions of the
  non-missing keys, then the positions of the missing keys in input order.\<close>

lemma nargsort_shape:
  assumes ok: "argsort_ok asort" and r: "nargsort asort items = Inr ix"
  shows "\<exists>front. ix = front @ filter (\<lambda>i. isna (items ! i)) [0..<length items]
     \<and> mset front = mset (filter (\<lambda>i. \<not> isna (items ! i)) [0..<length items])
     \<and> sorted_wrt (\<lambda>a b. py_le b a) (map (\<lambda>i. items ! i) front)"
proof -
  define nn where "nn = rev (filter (\<lambda>i. \<not> isna (items ! i)) [0..<length items])"
  define ks where "ks = map (\<lambda>i. items ! i) nn"
  define front where "front = rev (map (\<lambda>k. nn ! k) (asort ks))"
  have c: "comparable ks"
    using r by (auto simp: nargsort_def Let_def nn_def ks_def split: if_splits)
  have ix: "ix = front @ filter (\<lambda>i. isna (items ! i)) [0..<length items]"
    using r c by (auto simp: nargsort_def Let_def nn_def ks_def front_def split: if_splits)
  from ok c have p: "mset (asort ks) = mset [0..<length ks]"
    and s: "sorted_wrt py_le (map (\<lambda>i. ks ! i) (asort ks))"
    by (auto simp: argsort_ok_def)
  have len: "length ks = length nn" by (simp add: ks_def)
  have "mset (map (\<lambda>k. nn ! k) (asort ks)) = mset nn"
    using map_nth_perm[of "asort ks" nn] p len by simp
  then have m: "mset front = mset (filter (\<lambda>i. \<not> isna (items ! i)) [0..<length items])"
    by (simp add: front_def nn_def)
  have bound: "\<forall>k\<in>set (asort ks). k < length nn"
  proof
    fix k assume "k \<in> set (asort ks)"
    then have "k \<in># mset (asort ks)" by simp
    then have "k \<in># mset [0..<length ks]" using p by simp
    then show "k < length nn" using len by simp
  qed
  have "map (\<lambda>i. items ! i) (map (\<lambda>k. nn ! k) (asort ks)) = map (\<lambda>i. ks ! i) (asort ks)"
    using bound by (simp add: ks_def)
  then have "map (\<lambda>i. items ! i) front = rev (map (\<lambda>i. ks ! i) (asort ks))"
    by (simp add: front_def rev_map)
  then have "sorted_wrt (\<lambda>a b. py_le b a) (map (\<lambda>i. items ! i) front)"
    using s by (simp add: sorted_wrt_rev)
  with ix m show ?thesis by blast
qed

lemma mset_filter_split: "mset (filter (\<lambda>x. \<not> P x) xs) + mset (filter P xs) = mset xs"
  by (induction xs) auto

lemma nargsort_mset:
  assumes "argsort_ok asort" "nargsort asort items = Inr ix"
  shows "mset ix = mset [0..<length items]"
proof -
  from nargsort_shape[OF assms] obtain front where
    "ix = front @ filter (\<lambda>i. isna (items ! i)) [0..<length items]"
    "mset front = mset (filter (\<lambda>i. \<not> isna (items ! i)) [0..<length items])" by blast
  then show ?thesis
    using mset_filter_split[of "\<lambda>i. isna (items ! i)" "[0..<length items]"]
    by (simp only: mset_append)
qed

lemma filter_by_nth:
  "map (\<lambda>i. xs ! i) (filter (\<lambda>i. P (xs ! i)) [0..<length xs]) = filter P xs"
proof -
  have "filter P xs = filter P (map (\<lambda>i. xs ! i) [0..<length xs])" by (simp add: map_nth)
  also have "\<dots> = map (\<lambda>i. xs ! i) (filter (P \<circ> (\<lambda>i. xs ! i)) [0..<length xs])"
    by (simp only: filter_map)
  finally show ?thesis by (simp add: comp_def)
qed

lemma sort_values_Inr_iff:
  "(\<exists>s. sort_values asort df name = Inr s) \<longleftrightarrow> sortable_column df name"
proof
  assume "\<exists>s. sort_values asort df name = Inr s"
  then obtain s where s: "sort_values asort df name = Inr s" ..
  then obtain items ix where "get_column df name = Inr items" "nargsort asort items = Inr ix"
    by (auto simp: sort_values_def split: sum.splits)
  then show "sortable_column df name"
    using nargsort_Inr_comparable by (simp add: sortable_column_def)
next
  assume "sortable_column df name"
  then obtain items where i: "get_column df name = Inr items"
    and c: "comparable (filter (\<lambda>v. \<not> isna v) items)"
    by (auto simp: sortable_column_def split: sum.splits)
  show "\<exists>s. sort_values asort df name = Inr s"
    using i nargsort_Inr[OF c, of asort] by (simp add: sort_values_def)
qed

lemma sort_values_shape:
  assumes ok: "argsort_ok asort" and r: "sort_values asort df name = Inr s"
  shows "columns s = columns df \<and> mset (rows s) = mset (rows df) \<and>
    (\<exists>front. rows s = front @ filter (\<lambda>r. isna (value_in df name r)) (rows df)
       \<and> (\<forall>r\<in>set front. \<not> isna (value_in df name r))
       \<and> sorted_wrt (\<lambda>a b. py_le (value_in df name b) (value_in df name a)) front)"
proof -
  from r obtain j ix where j: "col_pos name (columns df) = Some j"
    and ix: "nargsort asort (map (\<lambda>r. cell_at r j) (rows df)) = Inr ix"
    and s: "s = df\<lparr>rows := map (\<lambda>i. rows df ! i) ix\<rparr>"
    by (auto simp: sort_values_def get_column_def split: sum.splits option.splits)
  define items where "items = map (\<lambda>r. cell_at r j) (rows df)"
  have key: "value_in df name = (\<lambda>r. cell_at r j)"
    using j by (auto simp: value_in_def)
  have len: "length items = length (rows df)" by (simp add: items_def)
  from nargsort_shape[OF ok ix[folded items_def]] obtain front where
    f1: "ix = front @ filter (\<lambda>i. isna (items ! i)) [0..<length items]" and
    f2: "mset front = mset (filter (\<lambda>i. \<not> isna (items ! i)) [0..<length items])" and
    f3: "sorted_wrt (\<lambda>a b. py_le b a) (map (\<lambda>i. items ! i) front)" by blast
  have fb: "\<forall>i\<in>set front. i < length (rows df) \<and> \<not> isna (items ! i)"
  proof
    fix i assume "i \<in> set front"
    then have "i \<in># mset front" by simp
    then have "i \<in> set (filter (\<lambda>i. \<not> isna (items ! i)) [0..<length items])"
      using f2 by (metis set_mset_mset)
    then show "i < length (rows df) \<and> \<not> isna (items ! i)" using len by simp
  qed
  have it: "\<And>i. i < length (rows df) \<Longrightarrow> items ! i = cell_at (rows df ! i) j"
    by (simp add: items_def)
  have nanpart: "map (\<lambda>i. rows df ! i) (filter (\<lambda>i. isna (items ! i)) [0..<length items])
      = filter (\<lambda>r. isna (cell_at r j)) (rows df)"
  proof -
    have "filter (\<lambda>i. isna (items ! i)) [0..<length items]
        = filter (\<lambda>i. isna (cell_at (rows df ! i) j)) [0..<length (rows df)]"
      using it len by (auto intro: filter_cong)
    then show ?thesis
      using filter_by_nth[of "rows df" "\<lambda>r. isna (cell_at r j)"] by simp
  qed
  have keys: "map (\<lambda>r. cell_at r j) (map (\<lambda>i. rows df ! i) front) = map (\<lambda>i. items ! i) front"
    using fb it by simp
  have rs: "rows s = map (\<lambda>i. rows df ! i) front @ filter (\<lambda>r. isna (cell_at r j)) (rows df)"
    using s f1 nanpart by simp
  have nonna: "\<forall>r\<in>set (map (\<lambda>i. rows df ! i) front). \<not> isna (cell_at r j)"
    using fb it by auto
  have "sorted_wrt (\<lambda>a b. py_le b a) (map (\<lambda>r. cell_at r j) (map (\<lambda>i. rows df ! i) front))"
    using f3 by (simp only: keys)
  then have srt: "sorted_wrt (\<lambda>a b. py_le (cell_at b j) (cell_at a j)) (map (\<lambda>i. rows df ! i) front)"
    by (simp only: sorted_wrt_map)
  have m: "mset (rows s) = mset (rows df)"
    using map_nth_perm[of ix "rows df"] nargsort_mset[OF ok ix] s by simp
  have c: "columns s = columns df" using s by simp
  from rs nonna srt m c show ?thesis unfolding key by blast
qed

subsection \<open>The split by the flag\<close>

lemma govt_split_unfold:
  assumes "col_pos ''ISGOVTCAN'' (columns df) = Some j"
  shows "govt_split ev df flag =
     sort_values (argsort ev) (df\<lparr>rows := filter (\<lambda>r. cell_at r j = Str flag) (rows df)\<rparr>) ''LASTDEMAND''"
proof -
  have g: "get_column df ''ISGOVTCAN'' = Inr (map (\<lambda>r. cell_at r j) (rows df))"
    using assms by (simp add: get_column_def)
  have "boolean_index df (eq_str (map (\<lambda>r. cell_at r j) (rows df)) flag)
      = df\<lparr>rows := filter (\<lambda>r. cell_at r j = Str flag) (rows df)\<rparr>"
    using rows_boolean_index[OF assms g, of flag] by (simp add: boolean_index_def)
  then show ?thesis using g by (simp add: govt_split_def)
qed

lemma govt_split_Inr:
  assumes "govt_split ev df flag = Inr s"
  shows "\<exists>j. col_pos ''ISGOVTCAN'' (columns df) = Some j \<and>
     sort_values (argsort ev) (df\<lparr>rows := filter (\<lambda>r. cell_at r j = Str flag) (rows df)\<rparr>) ''LASTDEMAND'' = Inr s"
proof -
  from assms obtain j where j: "col_pos ''ISGOVTCAN'' (columns df) = Some j"
    by (auto simp: govt_split_def get_column_def split: option.splits sum.splits)
  with assms govt_split_unfold[OF j] show ?thesis by auto
qed

lemma value_in_rows_update [simp]: "value_in (df\<lparr>rows := rs\<rparr>) name r = value_in df name r"
  by (simp add: value_in_def)

lemma govt_split_rows:
  assumes ok: "argsort_ok (argsort ev)" and r: "govt_split ev df flag = Inr s"
  shows "columns s = columns df \<and>
     mset (rows s) = mset (filter (\<lambda>r. value_in df ''ISGOVTCAN'' r = Str flag) (rows df))"
proof -
  from govt_split_Inr[OF r] obtain j where j: "col_pos ''ISGOVTCAN'' (columns df) = Some j"
    and s: "sort_values (argsort ev) (df\<lparr>rows := filter (\<lambda>r. cell_at r j = Str flag) (rows df)\<rparr>) ''LASTDEMAND'' = Inr s"
    by blast
  have key: "value_in df ''ISGOVTCAN'' = (\<lambda>r. cell_at r j)"
    using j by (auto simp: value_in_def)
  from sort_values_shape[OF ok s] show ?thesis by (simp add: key)
qed

lemma sortable_filter:
  assumes "sortable_column df name"
  shows "sortable_column (df\<lparr>rows := filter P (rows df)\<rparr>) name"
proof -
  from assms obtain j where j: "col_pos name (columns df) = Some j"
    and c: "comparable (filter (\<lambda>v. \<not> isna v) (map (\<lambda>r. cell_at r j) (rows df)))"
    by (auto simp: sortable_column_def get_column_def split: option.splits)
  have "set (filter (\<lambda>v. \<not> isna v) (map (\<lambda>r. cell_at r j) (filter P (rows df))))
      \<subseteq> set (filter (\<lambda>v. \<not> isna v) (map (\<lambda>r. cell_at r j) (rows df)))" by auto
  with c have "comparable (filter (\<lambda>v. \<not> isna v) (map (\<lambda>r. cell_at r j) (filter P (rows df))))"
    using comparable_subset by blast
  with j show ?thesis by (simp add: sortable_column_def get_column_def)
qed

lemma check_required_Inr:
  "check_required df = Inr () \<longleftrightarrow> (\<forall>c\<in>set required_cols. c \<in> set (columns df))"
  by (simp add: check_required_def list_all_iff)

lemma govt_split_succeeds:
  assumes "check_required df = Inr ()" and "sortable_column df ''LASTDEMAND''"
  shows "\<exists>s. govt_split ev df flag = Inr s"
proof -
  have "''ISGOVTCAN'' \<in> set (columns df)"
    using assms(1) by (simp add: check_required_Inr required_cols_def)
  then obtain j where j: "col_pos ''ISGOVTCAN'' (columns df) = Some j"
    using col_pos_None_iff[of "''ISGOVTCAN''" "columns df"] by auto
  show ?thesis
    unfolding govt_split_unfold[OF j]
    using sort_values_Inr_iff sortable_filter[OF assms(2)] by blast
qed

text \<open>
  Claim C1, as the code has it. When numpy's argsort keeps its contract, a table that has
  the required columns and a sortable \<^verbatim>\<open>LASTDEMAND\<close> column is split without an exception;
  and whenever both halves are produced, their rows together are, as a multiset, exactly
  the rows of the table whose \<^verbatim>\<open>ISGOVTCAN\<close> value is the text \<^verbatim>\<open>Yes\<close> or the text \<^verbatim>\<open>No\<close>.
  They are all the rows of the table when every row carries one of the two flags.
\<close>

theorem split_union_mset:
  assumes "argsort_ok (argsort ev)"
  shows "(check_required df = Inr () \<and> sortable_column df ''LASTDEMAND''
            \<longrightarrow> (\<exists>y n. df_yes ev df = Inr y \<and> df_no ev df = Inr n)) \<and>
         (\<forall>y n. df_yes ev df = Inr y \<and> df_no ev df = Inr n \<longrightarrow>
            mset (rows y) + mset (rows n) =
              mset (filter (\<lambda>r. value_in df ''ISGOVTCAN'' r = Str ''Yes''
                               \<or> value_in df ''ISGOVTCAN'' r = Str ''No'') (rows df)) \<and>
            ((\<forall>r\<in>set (rows df). value_in df ''ISGOVTCAN'' r = Str ''Yes''
                               \<or> value_in df ''ISGOVTCAN'' r = Str ''No'')
               \<longrightarrow> mset (rows y) + mset (rows n) = mset (rows df)))"
proof (intro conjI allI impI)
  assume "check_required df = Inr () \<and> sortable_column df ''LASTDEMAND''"
  then show "\<exists>y n. df_yes ev df = Inr y \<and> df_no ev df = Inr n"
    using govt_split_succeeds[of df ev] by (simp add: df_yes_def df_no_def)
next
  fix y n
  assume yn: "df_yes ev df = Inr y \<and> df_no ev df = Inr n"
  let ?f = "\<lambda>r. value_in df ''ISGOVTCAN'' r"
  have y: "mset (rows y) = mset (filter (\<lambda>r. ?f r = Str ''Yes'') (rows df))"
    and n: "mset (rows n) = mset (filter (\<lambda>r. ?f r = Str ''No'') (rows df))"
    using yn govt_split_rows[OF assms] by (auto simp: df_yes_def df_no_def)
  have "mset (filter (\<lambda>r. ?f r = Str ''Yes'') xs) + mset (filter (\<lambda>r. ?f r = Str ''No'') xs)
      = mset (filter (\<lambda>r. ?f r = Str ''Yes'' \<or> ?f r = Str ''No'') xs)" for xs
    by (induction xs) auto
  with y n show u: "mset (rows y) + mset (rows n) =
     mset (filter (\<lambda>r. ?f r = Str ''Yes'' \<or> ?f r = Str ''No'') (rows df))" by simp
  assume "\<forall>r\<in>set (rows df). ?f r = Str ''Yes'' \<or> ?f r = Str ''No''"
  then have "filter (\<lambda>r. ?f r = Str ''Yes'' \<or> ?f r = Str ''No'') (rows df) = rows df"
    by (simp add: filter_id_conv)
  with u show "mset (rows y) + mset (rows n) = mset (rows df)" by simp
qed


lemma scenario_no: "df_no stable_env scenario_df =
   Inr \<lparr>columns = [''ISGOVTCAN'', ''DIVNCODE'', ''LASTDEMAND''],
        rows = [[Str ''No'', Num 2, Num 50]]\<rparr>"
  by code_simp

theorem split_union_mset_witness:
  "argsort_ok (argsort stable_env) \<and> check_required scenario_df = Inr ()
   \<and> sortable_column scenario_df ''LASTDEMAND''
   \<and> (\<exists>y n. df_yes stable_env scenario_df = Inr y \<and> df_no stable_env scenario_df = Inr n
        \<and> mset (rows y) + mset (rows n) = mset (rows scenario_df))"
proof -
  have a: "argsort_ok (argsort stable_env)"
    by (simp add: stable_env_def stable_argsort_ok)
  have c: "check_required scenario_df = Inr ()" by code_simp
  have s: "sortable_column scenario_df ''LASTDEMAND''" by code_simp
  have f: "\<forall>r\<in>set (rows scenario_df). value_in scenario_df ''ISGOVTCAN'' r = Str ''Yes''
            \<or> value_in scenario_df ''ISGOVTCAN'' r = Str ''No''"
    by code_simp
  from split_union_mset[OF a, of scenario_df] c s f
  have "\<exists>y n. df_yes stable_env scenario_df = Inr y \<and> df_no stable_env scenario_df = Inr n
        \<and> mset (rows y) + mset (rows n) = mset (rows scenario_df)"
    by blast
  with a c s show ?thesis by blast
qed

text \<open>
  Claim C1 as stated fails: a row flagged \<^verbatim>\<open>yes\<close> goes to neither half, so the two halves
  together are not the rows of the table.
\<close>

theorem split_union_mset_counterexample:
  "check_required lower_flag_df = Inr ()
   \<and> df_yes stable_env lower_flag_df =
       Inr \<lparr>columns = [''ISGOVTCAN'', ''DIVNCODE'', ''LASTDEMAND''],
            rows = [[Str ''Yes'', Num 1, Num 100]]\<rparr>
   \<and> df_no stable_env lower_flag_df =
       Inr \<lparr>columns = [''ISGOVTCAN'', ''DIVNCODE'', ''LASTDEMAND''], rows = []\<rparr>
   \<and> mset [[Str ''Yes'', Num 1, Num 100]] + mset [] \<noteq> mset (rows lower_flag_df)"
proof -
  have 1: "check_required lower_flag_df = Inr ()" by code_simp
  have 2: "df_yes stable_env lower_flag_df =
       Inr \<lparr>columns = [''ISGOVTCAN'', ''DIVNCODE'', ''LASTDEMAND''],
            rows = [[Str ''Yes'', Num 1, Num 100]]\<rparr>" by code_simp
  have 3: "df_no stable_env lower_flag_df =
       Inr \<lparr>columns = [''ISGOVTCAN'', ''DIVNCODE'', ''LASTDEMAND''], rows = []\<rparr>" by code_simp
  have 4: "mset [[Str ''Yes'', Num 1, Num 100]] + mset [] \<noteq> mset (rows lower_flag_df)"
    by (simp add: lower_flag_df_def)
  from 1 2 3 4 show ?thesis by blast
qed

subsection \<open>The order of the sorted rows\<close>

lemma sort_values_TypeError:
  assumes "get_column df name = Inr items" and "\<not> comparable (filter (\<lambda>v. \<not> isna v) items)"
  shows "sort_values asort df name = Inl TypeError"
proof -
  have "nargsort asort items = Inl TypeError"
  proof (cases "nargsort asort items")
    case (Inl e)
    then show ?thesis by (auto simp: nargsort_def Let_def split: if_splits)
  next
    case (Inr ix)
    then show ?thesis using nargsort_Inr_comparable assms(2) by blast
  qed
  with assms(1) show ?thesis by (simp add: sort_values_def)
qed

text \<open>
  Claim C2, as the code has it. When numpy's argsort keeps its contract, sorting a
  sortable column succeeds and returns the same rows in a new order: the rows with a
  missing value come last, in their input order; before them come the others, in
  descending order of Python's comparison of the values. That is by value for numbers (a
  number further on is never greater) and by character code for texts, not by the number
  a text spells. A column holding both a text and a number raises TypeError. Nothing is
  stated about the order among rows with equal values.
\<close>

theorem sort_values_descending:
  assumes "argsort_ok asort"
  shows "(sortable_column df name \<longrightarrow> (\<exists>s. sort_values asort df name = Inr s)) \<and>
     (\<forall>items. get_column df name = Inr items \<and> \<not> comparable (filter (\<lambda>v. \<not> isna v) items)
        \<longrightarrow> sort_values asort df name = Inl TypeError) \<and>
     (\<forall>s. sort_values asort df name = Inr s \<longrightarrow>
        columns s = columns df \<and> mset (rows s) = mset (rows df) \<and>
        (\<exists>front. rows s = front @ filter (\<lambda>r. isna (value_in df name r)) (rows df)
           \<and> (\<forall>r\<in>set front. \<not> isna (value_in df name r))
           \<and> sorted_wrt (\<lambda>a b. py_le (value_in df name b) (value_in df name a)) front
           \<and> (\<forall>i j x y. i < j \<and> j < length front \<and> value_in df name (front ! i) = Num x
                  \<and> value_in df name (front ! j) = Num y \<longrightarrow> y \<le> x)))"
proof (intro conjI allI impI)
  assume "sortable_column df name"
  then show "\<exists>s. sort_values asort df name = Inr s" using sort_values_Inr_iff by blast
next
  fix items
  assume "get_column df name = Inr items \<and> \<not> comparable (filter (\<lambda>v. \<not> isna v) items)"
  then show "sort_values asort df name = Inl TypeError" using sort_values_TypeError by blast
next
  fix s assume s: "sort_values asort df name = Inr s"
  from sort_values_shape[OF assms s] show "columns s = columns df" "mset (rows s) = mset (rows df)"
    by blast+
  from sort_values_shape[OF assms s] obtain front where
    f: "rows s = front @ filter (\<lambda>r. isna (value_in df name r)) (rows df)"
       "\<forall>r\<in>set front. \<not> isna (value_in df name r)"
       "sorted_wrt (\<lambda>a b. py_le (value_in df name b) (value_in df name a)) front" by blast
  have "\<forall>i j x y. i < j \<and> j < length front \<and> value_in df name (front ! i) = Num x
                  \<and> value_in df name (front ! j) = Num y \<longrightarrow> y \<le> x"
  proof (intro allI impI)
    fix i j x y
    assume h: "i < j \<and> j < length front \<and> value_in df name (front ! i) = Num x
                  \<and> value_in df name (front ! j) = Num y"
    then have "i < j" "j < length front" by simp_all
    then have "py_le (value_in df name (front ! j)) (value_in df name (front ! i))"
      using f(3) sorted_wrt_iff_nth_less[of "\<lambda>a b. py_le (value_in df name b) (value_in df name a)" front]
      by blast
    with h show "y \<le> x" by simp
  qed
  with f show "\<exists>front. rows s = front @ filter (\<lambda>r. isna (value_in df name r)) (rows df)
           \<and> (\<forall>r\<in>set front. \<not> isna (value_in df name r))
           \<and> sorted_wrt (\<lambda>a b. py_le (value_in df name b) (value_in df name a)) front
           \<and> (\<forall>i j x y. i < j \<and> j < length front \<and> value_in df name (front ! i) = Num x
                  \<and> value_in df name (front ! j) = Num y \<longrightarrow> y \<le> x)" by blast
qed


theorem sort_values_descending_witness:
  "argsort_ok stable_argsort \<and> sortable_column gaps_df ''LASTDEMAND''
   \<and> sort_values stable_argsort gaps_df ''LASTDEMAND'' =
       Inr \<lparr>columns = [''DIVNCODE'', ''LASTDEMAND''],
            rows = [[Num 4, Num 200], [Num 5, Num 100], [Num 2, Num 50], [Num 1, NaN], [Num 3, NaN]]\<rparr>
   \<and> (\<exists>s. sort_values stable_argsort gaps_df ''LASTDEMAND'' = Inr s
        \<and> mset (rows s) = mset (rows gaps_df))"
proof -
  have s: "sortable_column gaps_df ''LASTDEMAND''" by code_simp
  have v: "sort_values stable_argsort gaps_df ''LASTDEMAND'' =
       Inr \<lparr>columns = [''DIVNCODE'', ''LASTDEMAND''],
            rows = [[Num 4, Num 200], [Num 5, Num 100], [Num 2, Num 50], [Num 1, NaN], [Num 3, NaN]]\<rparr>"
    by code_simp
  from sort_values_descending[OF stable_argsort_ok, of gaps_df "''LASTDEMAND''"] s
  have "\<exists>s. sort_values stable_argsort gaps_df ''LASTDEMAND'' = Inr s
        \<and> mset (rows s) = mset (rows gaps_df)" by blast
  with stable_argsort_ok s v show ?thesis by blast
qed

text \<open>
  Claim C2 as stated fails. In a column that \<^verbatim>\<open>read_csv\<close> keeps as texts, the row with the
  text \<^verbatim>\<open>abc\<close>, which is no number, is placed before the row with \<^verbatim>\<open>100\<close>; the order the
  specification states puts it after.
\<close>

theorem sort_values_descending_counterexample:
  "sort_values stable_argsort text_demand_df ''LASTDEMAND'' =
       Inr \<lparr>columns = [''ISGOVTCAN'', ''DIVNCODE'', ''LASTDEMAND''],
            rows = [[Str ''Yes'', Num 2, Str ''abc''], [Str ''Yes'', Num 1, Str ''100'']]\<rparr>
   \<and> spec_sortDescending text_demand_df ''LASTDEMAND'' =
       [[Str ''Yes'', Num 1, Str ''100''], [Str ''Yes'', Num 2, Str ''abc'']]
   \<and> spec_numeric (Str ''100'') = Some 100 \<and> spec_numeric (Str ''abc'') = None"
proof -
  have 1: "sort_values stable_argsort text_demand_df ''LASTDEMAND'' =
       Inr \<lparr>columns = [''ISGOVTCAN'', ''DIVNCODE'', ''LASTDEMAND''],
            rows = [[Str ''Yes'', Num 2, Str ''abc''], [Str ''Yes'', Num 1, Str ''100'']]\<rparr>"
    by code_simp
  have 2: "spec_sortDescending text_demand_df ''LASTDEMAND'' =
       [[Str ''Yes'', Num 1, Str ''100''], [Str ''Yes'', Num 2, Str ''abc'']]"
    by code_simp
  have 3: "spec_numeric (Str ''100'') = Some 100" by code_simp
  have 4: "spec_numeric (Str ''abc'') = None" by code_simp
  from 1 2 3 4 show ?thesis by blast
qed

subsection \<open>The check of the required columns\<close>

text \<open>
  Claim C3. The check raises exactly when a required column is absent from the column
  list, whatever the rows are (none included). The exception is a ValueError whose message
  names each of the three required columns, so the absent one among them, and
  \<^verbatim>\<open>process_and_format\<close> then returns this exception and no workbook.
\<close>

theorem check_required_iff:
  "((\<exists>e. check_required df = Inl e) \<longleftrightarrow> (\<exists>c\<in>set required_cols. c \<notin> set (columns df))) \<and>
   (\<forall>e. check_required df = Inl e \<longrightarrow> e = ValueError required_msg) \<and>
   (\<forall>c\<in>set required_cols. sublist c required_msg) \<and>
   (\<forall>rs. check_required (df\<lparr>rows := rs\<rparr>) = check_required df) \<and>
   ((\<exists>c\<in>set required_cols. c \<notin> set (columns df))
      \<longrightarrow> process_and_format ev (Inr df) output_file = Inl (ValueError required_msg)) \<and>
   required_cols = [''ISGOVTCAN'', ''DIVNCODE'', ''LASTDEMAND'']"
proof (intro conjI allI impI)
  show "(\<exists>e. check_required df = Inl e) \<longleftrightarrow> (\<exists>c\<in>set required_cols. c \<notin> set (columns df))"
    by (auto simp: check_required_def list_all_iff)
  show "\<forall>c\<in>set required_cols. sublist c required_msg"
  proof -
    have "sublist ''ISGOVTCAN'' required_msg" by code_simp
    moreover have "sublist ''DIVNCODE'' required_msg" by code_simp
    moreover have "sublist ''LASTDEMAND'' required_msg" by code_simp
    ultimately show ?thesis by (simp add: required_cols_def)
  qed
  show "required_cols = [''ISGOVTCAN'', ''DIVNCODE'', ''LASTDEMAND'']"
    by (simp add: required_cols_def)
next
  fix e assume "check_required df = Inl e"
  then show "e = ValueError required_msg"
    by (auto simp: check_required_def split: if_splits)
next
  fix rs show "check_required (df\<lparr>rows := rs\<rparr>) = check_required df"
    by (simp add: check_required_def)
next
  assume "\<exists>c\<in>set required_cols. c \<notin> set (columns df)"
  then have "check_required df = Inl (ValueError required_msg)"
    by (auto simp: check_required_def list_all_iff)
  then show "process_and_format ev (Inr df) output_file = Inl (ValueError required_msg)"
    by (simp add: process_and_format_def and_then_def)
qed

theorem check_required_iff_witness:
  "check_required \<lparr>columns = [''ISGOVTCAN'', ''DIVNCODE''], rows = []\<rparr>
      = Inl (ValueError required_msg)
   \<and> sublist ''LASTDEMAND'' required_msg
   \<and> process_and_format stable_env (Inr \<lparr>columns = [''ISGOVTCAN'', ''DIVNCODE''], rows = []\<rparr>) ''out.xlsx''
      = Inl (ValueError required_msg)
   \<and> check_required \<lparr>columns = [''DIVNCODE'', ''LASTDEMAND'', ''ISGOVTCAN''], rows = []\<rparr> = Inr ()"
proof -
  let ?d = "\<lparr>columns = [''ISGOVTCAN'', ''DIVNCODE''], rows = []\<rparr>"
  let ?g = "\<lparr>columns = [''DIVNCODE'', ''LASTDEMAND'', ''ISGOVTCAN''], rows = []\<rparr>"
  have m: "\<exists>c\<in>set required_cols. c \<notin> set (columns ?d)"
    by (simp add: required_cols_def)
  have l: "''LASTDEMAND'' \<in> set required_cols" by (simp add: required_cols_def)
  note t = check_required_iff[of ?d stable_env "''out.xlsx''"]
  from t m obtain e where e: "check_required ?d = Inl e" by blast
  with t have 1: "check_required ?d = Inl (ValueError required_msg)" by blast
  from t l have 2: "sublist ''LASTDEMAND'' required_msg" by blast
  from t m have 3: "process_and_format stable_env (Inr ?d) ''out.xlsx'' = Inl (ValueError required_msg)"
    by blast
  have n: "\<not> (\<exists>c\<in>set required_cols. c \<notin> set (columns ?g))"
    by (simp add: required_cols_def)
  have "\<not> (\<exists>e. check_required ?g = Inl e)"
    using check_required_iff[of ?g stable_env "''out.xlsx''"] n by blast
  then have 4: "check_required ?g = Inr ()" by (cases "check_required ?g") auto
  from 1 2 3 4 show ?thesis by blast
qed

subsection \<open>The label column and the concatenation\<close>

lemma col_pos_append_in: "col_pos c xs = Some j \<Longrightarrow> col_pos c (xs @ ys) = Some j"
  by (induction xs arbitrary: j) (auto split: if_splits)

lemma col_pos_append_notin: "c \<notin> set xs \<Longrightarrow> col_pos c (xs @ [c]) = Some (length xs)"
  by (induction xs) auto

lemma col_pos_Some_ex: "c \<in> set xs \<Longrightarrow> \<exists>j. col_pos c xs = Some j"
  using col_pos_None_iff[of c xs] by auto

lemma rows_set_column: "rows (set_column df name v) = map (set_cell df name v) (rows df)"
  by (auto simp: set_column_def set_cell_def split: option.splits)

lemma columns_set_column:
  "columns (set_column df name v) =
     (if name \<in> set (columns df) then columns df else columns df @ [name])"
  using col_pos_None_iff[of name "columns df"]
  by (auto simp: set_column_def split: option.splits)

lemma value_in_set_cell_same:
  assumes "length r = length (columns df)"
  shows "value_in (set_column df name v) name (set_cell df name v r) = v"
proof (cases "col_pos name (columns df)")
  case None
  then have n: "name \<notin> set (columns df)" by (simp add: col_pos_None_iff)
  have "columns (set_column df name v) = columns df @ [name]" using n by (simp add: columns_set_column)
  then show ?thesis
    using None assms[symmetric] col_pos_append_notin[OF n]
    by (simp add: value_in_def set_cell_def cell_at_def)
next
  case (Some j)
  then have "j < length (columns df)" using col_pos_less by blast
  moreover have "columns (set_column df name v) = columns df"
    using Some by (simp add: set_column_def)
  ultimately show ?thesis
    using Some assms by (simp add: value_in_def set_cell_def cell_at_def)
qed

lemma value_in_set_cell_other:
  assumes "length r = length (columns df)" and "c \<noteq> name"
  shows "value_in (set_column df name v) c (set_cell df name v r) = value_in df c r"
proof (cases "col_pos name (columns df)")
  case None
  then have n: "name \<notin> set (columns df)" by (simp add: col_pos_None_iff)
  have cols: "columns (set_column df name v) = columns df @ [name]"
    using n by (simp add: columns_set_column)
  show ?thesis
  proof (cases "col_pos c (columns df)")
    case N2: None
    then have "c \<notin> set (columns df @ [name])" using assms(2) by (simp add: col_pos_None_iff)
    then have "col_pos c (columns df @ [name]) = None"
      using col_pos_None_iff[of c "columns df @ [name]"] by blast
    then show ?thesis using N2 cols by (simp add: value_in_def)
  next
    case (Some k)
    then have k: "k < length r" using col_pos_less assms(1) by fastforce
    have "col_pos c (columns df @ [name]) = Some k" using Some by (rule col_pos_append_in)
    then show ?thesis
      using Some None cols k by (simp add: value_in_def set_cell_def cell_at_def nth_append)
  qed
next
  case (Some j)
  have cols: "columns (set_column df name v) = columns df"
    using Some by (simp add: set_column_def)
  show ?thesis
  proof (cases "col_pos c (columns df)")
    case None
    then show ?thesis using cols by (simp add: value_in_def)
  next
    case S2: (Some k)
    have "k \<noteq> j" using col_pos_less[OF S2] col_pos_less[OF Some] assms(2) by auto
    then show ?thesis
      using Some S2 cols by (simp add: value_in_def set_cell_def cell_at_def)
  qed
qed

lemma value_in_reindexed:
  assumes "c \<in> set cols"
  shows "value_in \<lparr>columns = cols, rows = rs\<rparr> c (map f cols) = f c"
proof -
  from col_pos_Some_ex[OF assms] obtain k where k: "col_pos c cols = Some k" by blast
  then have "k < length cols" "cols ! k = c" using col_pos_less by blast+
  then show ?thesis using k by (simp add: value_in_def cell_at_def)
qed

lemma rows_pd_concat:
  "rows (pd_concat a b) =
     map (\<lambda>r. map (\<lambda>c. value_in a c r) (columns (pd_concat a b))) (rows a)
   @ map (\<lambda>r. map (\<lambda>c. value_in b c r) (columns (pd_concat a b))) (rows b)"
  by (simp add: pd_concat_def Let_def)

lemma columns_pd_concat:
  "columns (pd_concat a b) = columns a @ filter (\<lambda>c. c \<notin> set (columns a)) (columns b)"
  by (simp add: pd_concat_def Let_def)

lemma value_in_pd_concat_left:
  assumes "i < length (rows a)" and "c \<in> set (columns a) \<union> set (columns b)"
  shows "value_in (pd_concat a b) c (rows (pd_concat a b) ! i) = value_in a c (rows a ! i)"
proof -
  have c: "c \<in> set (columns (pd_concat a b))" using assms(2) by (auto simp: columns_pd_concat)
  have r: "rows (pd_concat a b) ! i = map (\<lambda>c. value_in a c (rows a ! i)) (columns (pd_concat a b))"
    using assms(1) by (simp add: rows_pd_concat nth_append)
  have "pd_concat a b = \<lparr>columns = columns (pd_concat a b), rows = rows (pd_concat a b)\<rparr>" by simp
  then show ?thesis using value_in_reindexed[OF c] r by metis
qed

lemma value_in_pd_concat_right:
  assumes "i < length (rows b)" and "c \<in> set (columns a) \<union> set (columns b)"
  shows "value_in (pd_concat a b) c (rows (pd_concat a b) ! (length (rows a) + i)) = value_in b c (rows b ! i)"
proof -
  have c: "c \<in> set (columns (pd_concat a b))" using assms(2) by (auto simp: columns_pd_concat)
  have r: "rows (pd_concat a b) ! (length (rows a) + i) = map (\<lambda>c. value_in b c (rows b ! i)) (columns (pd_concat a b))"
    using assms(1) by (simp add: rows_pd_concat nth_append)
  have "pd_concat a b = \<lparr>columns = columns (pd_concat a b), rows = rows (pd_concat a b)\<rparr>" by simp
  then show ?thesis using value_in_reindexed[OF c] r by metis
qed

lemma rectangular_nth: "rectangular df \<Longrightarrow> i < length (rows df) \<Longrightarrow> length (rows df ! i) = length (columns df)"
  by (simp add: rectangular_def list_all_length)

lemma length_rows_combined_df:
  "length (rows (combined_df df_a df_b)) = length (rows df_a) + length (rows df_b)"
  by (simp add: combined_df_def rows_pd_concat rows_set_column)

lemma combined_df_label_left:
  assumes "rectangular df_a" and i: "i < length (rows df_a)"
  shows "value_in (combined_df df_a df_b) ''HCC Type'' (rows (combined_df df_a df_b) ! i) = Str ''A''"
proof -
  let ?a = "set_column df_a ''HCC Type'' (Str ''A'')"
  let ?b = "set_column df_b ''HCC Type'' (Str ''B'')"
  have la: "length (rows ?a) = length (rows df_a)" by (simp add: rows_set_column)
  have ha: "''HCC Type'' \<in> set (columns ?a)" by (simp add: columns_set_column)
  have ra: "rows ?a ! i = set_cell df_a ''HCC Type'' (Str ''A'') (rows df_a ! i)"
    using i by (simp add: rows_set_column)
  have "value_in (pd_concat ?a ?b) ''HCC Type'' (rows (pd_concat ?a ?b) ! i)
      = value_in ?a ''HCC Type'' (rows ?a ! i)"
    using value_in_pd_concat_left[of i ?a "''HCC Type''" ?b] i la ha by simp
  also have "\<dots> = Str ''A''"
    using ra value_in_set_cell_same[OF rectangular_nth[OF assms(1) i]] by simp
  finally show ?thesis by (simp add: combined_df_def)
qed

lemma combined_df_label_right:
  assumes "rectangular df_b" and i: "i < length (rows df_b)"
  shows "value_in (combined_df df_a df_b) ''HCC Type''
           (rows (combined_df df_a df_b) ! (length (rows df_a) + i)) = Str ''B''"
proof -
  let ?a = "set_column df_a ''HCC Type'' (Str ''A'')"
  let ?b = "set_column df_b ''HCC Type'' (Str ''B'')"
  have la: "length (rows ?a) = length (rows df_a)" and lb: "length (rows ?b) = length (rows df_b)"
    by (simp_all add: rows_set_column)
  have ha: "''HCC Type'' \<in> set (columns ?a)" by (simp add: columns_set_column)
  have rb: "rows ?b ! i = set_cell df_b ''HCC Type'' (Str ''B'') (rows df_b ! i)"
    using i by (simp add: rows_set_column)
  have "value_in (pd_concat ?a ?b) ''HCC Type'' (rows (pd_concat ?a ?b) ! (length (rows ?a) + i))
      = value_in ?b ''HCC Type'' (rows ?b ! i)"
    using value_in_pd_concat_right[of i ?b "''HCC Type''" ?a] i lb ha by simp
  also have "\<dots> = Str ''B''"
    using rb value_in_set_cell_same[OF rectangular_nth[OF assms(1) i]] by simp
  finally show ?thesis by (simp add: combined_df_def la)
qed

lemma combined_df_value_left:
  assumes "rectangular df_a" and i: "i < length (rows df_a)"
    and n: "name \<in> set (columns df_a)" and ne: "name \<noteq> ''HCC Type''"
  shows "value_in (combined_df df_a df_b) name (rows (combined_df df_a df_b) ! i)
           = value_in df_a name (rows df_a ! i)"
proof -
  let ?a = "set_column df_a ''HCC Type'' (Str ''A'')"
  let ?b = "set_column df_b ''HCC Type'' (Str ''B'')"
  have la: "length (rows ?a) = length (rows df_a)" by (simp add: rows_set_column)
  have ca: "set (columns df_a) \<subseteq> set (columns ?a)" by (auto simp: columns_set_column)
  have ra: "rows ?a ! i = set_cell df_a ''HCC Type'' (Str ''A'') (rows df_a ! i)"
    using i by (simp add: rows_set_column)
  have "value_in (pd_concat ?a ?b) name (rows (pd_concat ?a ?b) ! i) = value_in ?a name (rows ?a ! i)"
    using value_in_pd_concat_left[of i ?a name ?b] i la n ca by auto
  also have "\<dots> = value_in df_a name (rows df_a ! i)"
    using ra value_in_set_cell_other[OF rectangular_nth[OF assms(1) i] ne] by simp
  finally show ?thesis by (simp add: combined_df_def)
qed

lemma combined_df_value_right:
  assumes "rectangular df_b" and i: "i < length (rows df_b)"
    and n: "name \<in> set (columns df_b)" and ne: "name \<noteq> ''HCC Type''"
  shows "value_in (combined_df df_a df_b) name (rows (combined_df df_a df_b) ! (length (rows df_a) + i))
           = value_in df_b name (rows df_b ! i)"
proof -
  let ?a = "set_column df_a ''HCC Type'' (Str ''A'')"
  let ?b = "set_column df_b ''HCC Type'' (Str ''B'')"
  have la: "length (rows ?a) = length (rows df_a)" and lb: "length (rows ?b) = length (rows df_b)"
    by (simp_all add: rows_set_column)
  have cb: "set (columns df_b) \<subseteq> set (columns ?b)" by (auto simp: columns_set_column)
  have rb: "rows ?b ! i = set_cell df_b ''HCC Type'' (Str ''B'') (rows df_b ! i)"
    using i by (simp add: rows_set_column)
  have "value_in (pd_concat ?a ?b) name (rows (pd_concat ?a ?b) ! (length (rows ?a) + i))
      = value_in ?b name (rows ?b ! i)"
    using value_in_pd_concat_right[of i ?b name ?a] i lb n cb by auto
  also have "\<dots> = value_in df_b name (rows df_b ! i)"
    using rb value_in_set_cell_other[OF rectangular_nth[OF assms(1) i] ne] by simp
  finally show ?thesis by (simp add: combined_df_def la)
qed

text \<open>
  Claim C5. For rectangular frames A and B, the combined frame has as many rows as A and
  B together; its first rows, one for each row of A, hold \<^verbatim>\<open>A\<close> in the column
  \<^verbatim>\<open>HCC Type\<close>, the rows after them, one for each row of B, hold \<^verbatim>\<open>B\<close>; and the
  \<open>i\<close>-th of these rows holds, in every other column of its source, the value the
  \<open>i\<close>-th row of the source holds there, so each source keeps its row order.
\<close>

theorem combined_df_rows:
  assumes "rectangular df_a" and "rectangular df_b"
  shows "length (rows (combined_df df_a df_b)) = length (rows df_a) + length (rows df_b) \<and>
     (\<forall>i<length (rows df_a).
         value_in (combined_df df_a df_b) ''HCC Type'' (rows (combined_df df_a df_b) ! i) = Str ''A'') \<and>
     (\<forall>i<length (rows df_b).
         value_in (combined_df df_a df_b) ''HCC Type''
           (rows (combined_df df_a df_b) ! (length (rows df_a) + i)) = Str ''B'') \<and>
     (\<forall>i<length (rows df_a). \<forall>name\<in>set (columns df_a). name \<noteq> ''HCC Type'' \<longrightarrow>
         value_in (combined_df df_a df_b) name (rows (combined_df df_a df_b) ! i)
           = value_in df_a name (rows df_a ! i)) \<and>
     (\<forall>i<length (rows df_b). \<forall>name\<in>set (columns df_b). name \<noteq> ''HCC Type'' \<longrightarrow>
         value_in (combined_df df_a df_b) name (rows (combined_df df_a df_b) ! (length (rows df_a) + i))
           = value_in df_b name (rows df_b ! i))"
proof (intro conjI allI impI ballI)
  show "length (rows (combined_df df_a df_b)) = length (rows df_a) + length (rows df_b)"
    by (rule length_rows_combined_df)
next
  fix i assume "i < length (rows df_a)"
  then show "value_in (combined_df df_a df_b) ''HCC Type'' (rows (combined_df df_a df_b) ! i) = Str ''A''"
    by (rule combined_df_label_left[OF assms(1)])
next
  fix i assume "i < length (rows df_b)"
  then show "value_in (combined_df df_a df_b) ''HCC Type''
           (rows (combined_df df_a df_b) ! (length (rows df_a) + i)) = Str ''B''"
    by (rule combined_df_label_right[OF assms(2)])
next
  fix i name
  assume "i < length (rows df_a)" "name \<in> set (columns df_a)" "name \<noteq> ''HCC Type''"
  then show "value_in (combined_df df_a df_b) name (rows (combined_df df_a df_b) ! i)
           = value_in df_a name (rows df_a ! i)"
    by (rule combined_df_value_left[OF assms(1)])
next
  fix i name
  assume "i < length (rows df_b)" "name \<in> set (columns df_b)" "name \<noteq> ''HCC Type''"
  then show "value_in (combined_df df_a df_b) name (rows (combined_df df_a df_b) ! (length (rows df_a) + i))
           = value_in df_b name (rows df_b ! i)"
    by (rule combined_df_value_right[OF assms(2)])
qed
subsection \<open>Column letters\<close>

declare letters_loop.simps [simp del]

lemma letters_loop_length:
  "length (letters_loop i acc) \<ge> length acc + (if i > 0 then 1 else 0)"
proof (induction i acc rule: letters_loop.induct)
  case (1 col_idx letters)
  show ?case
  proof (cases "col_idx > 0")
    case False
    then show ?thesis by (simp add: letters_loop.simps)
  next
    case True
    show ?thesis
    proof (cases "col_idx mod 26 = 0")
      case z: True
      have "length (letters @ [char_of (26 + 64 :: nat)]) \<le> length (letters_loop (col_idx div 26 - 1) (letters @ [char_of (26 + 64 :: nat)]))"
        using "1.IH"(1)[OF True z] by (auto split: if_splits)
      then show ?thesis using True z by (subst letters_loop.simps) simp
    next
      case nz: False
      have "length (letters @ [char_of (col_idx mod 26 + 64)]) \<le> length (letters_loop (col_idx div 26) (letters @ [char_of (col_idx mod 26 + 64)]))"
        using "1.IH"(2)[OF True nz] by (auto split: if_splits)
      then show ?thesis using True nz by (subst letters_loop.simps) simp
    qed
  qed
qed

lemma letters_loop_small:
  assumes "1 \<le> i" "i \<le> 26"
  shows "letters_loop i [] = [char_of (i + 64)]"
proof (cases "i = 26")
  case True
  then show ?thesis by (simp add: letters_loop.simps)
next
  case False
  then have "i mod 26 = i" "i div 26 = 0" using assms by simp_all
  then show ?thesis using assms by (simp add: letters_loop.simps)
qed

lemma letters_loop_big:
  assumes "26 < i"
  shows "length (letters_loop i []) \<ge> 2"
proof (cases "i mod 26 = 0")
  case True
  then have "i div 26 \<ge> 2" using assms by presburger
  then have "i div 26 - 1 > 0" by simp
  then have "length (letters_loop (i div 26 - 1) [char_of (26 + 64 :: nat)]) \<ge> 2"
    using letters_loop_length[of "[char_of (26 + 64 :: nat)]" "i div 26 - 1"] by simp
  then show ?thesis using True assms by (subst letters_loop.simps) simp
next
  case False
  have "i div 26 > 0" using assms by presburger
  then have "length (letters_loop (i div 26) [char_of (i mod 26 + 64)]) \<ge> 2"
    using letters_loop_length[of "[char_of (i mod 26 + 64)]" "i div 26"] by simp
  then show ?thesis using False assms by (subst letters_loop.simps) simp
qed

lemma char_of_eq_iff:
  assumes "n < 256"
  shows "(char_of (n::nat) = (c::char)) = (n = of_char c)"
proof
  assume "char_of n = c"
  then have "of_char (char_of n :: char) = (of_char c :: nat)" by simp
  then show "n = of_char c" using assms by (simp add: of_char_of)
next
  assume "n = of_char c"
  then show "char_of n = c" by simp
qed

lemma get_column_letter_A_P:
  assumes "get_column_letter i = Inr l"
  shows "l \<in> set [''A'', ''P''] \<longleftrightarrow> i = 1 \<or> i = 16"
proof -
  from assms have r: "1 \<le> i" "i \<le> 18278" and l: "l = rev (letters_loop i [])"
    by (auto simp: get_column_letter_def split: if_splits)
  show ?thesis
  proof (cases "i \<le> 26")
    case True
    then have l1: "l = [char_of (i + 64)]" using l letters_loop_small[OF r(1)] by simp
    have "(char_of (i + 64) = CHR ''A'') = (i + 64 = of_char (CHR ''A''))"
      using True by (intro char_of_eq_iff) simp
    moreover have "(char_of (i + 64) = CHR ''P'') = (i + 64 = of_char (CHR ''P''))"
      using True by (intro char_of_eq_iff) simp
    ultimately show ?thesis using l1 by auto
  next
    case False
    then have "length l \<ge> 2" using l letters_loop_big[of i] by simp
    then have "l \<noteq> ''A''" "l \<noteq> ''P''" by auto
    then show ?thesis using False by simp
  qed
qed

lemma get_column_letter_ok: "1 \<le> i \<Longrightarrow> i \<le> 18278 \<Longrightarrow> \<exists>l. get_column_letter i = Inr l"
  by (simp add: get_column_letter_def)

subsection \<open>The styling loop\<close>

lemma row1_set_header: "row1 (set_header ws k c) = (row1 ws)[k - 1 := c]"
  by (simp add: row1_def set_header_def split: list.splits)

lemma tl_set_header: "tl (cells (set_header ws k c)) = tl (cells ws)"
  by (simp add: set_header_def split: list.splits)

lemma cells_row1_tl: "cells ws \<noteq> [] \<Longrightarrow> cells ws = row1 ws # tl (cells ws)"
  by (cases "cells ws") (simp_all add: row1_def)

lemma style_column_Inr:
  assumes "style_column ev k ws = Inr ws'"
  shows "get_column_letter k = Inr (rev (letters_loop k [])) \<and> title ws' = title ws
     \<and> row1 ws' = (row1 ws)[k - 1 := style_header_cell (rev (letters_loop k [])) (row1 ws ! (k - 1))]
     \<and> tl (cells ws') = tl (cells ws) \<and> (cells ws' = [] \<longleftrightarrow> cells ws = [])"
proof -
  from assms obtain l where l: "get_column_letter k = Inr l"
    by (auto simp: style_column_def split: sum.splits)
  then have l': "l = rev (letters_loop k [])"
    by (auto simp: get_column_letter_def split: if_splits)
  let ?ws1 = "set_header ws k (style_header_cell l (row1 ws ! (k - 1)))"
  have w: "ws' = ?ws1\<lparr>column_width := (column_width ?ws1)(l \<mapsto> max_length ev ?ws1 k + 2)\<rparr>"
    using assms l by (simp add: style_column_def Let_def)
  have r: "row1 ws' = row1 ?ws1" unfolding w by (simp add: row1_def)
  have t: "tl (cells ws') = tl (cells ?ws1)" unfolding w by simp
  have e: "(cells ws' = []) = (cells ws = [])"
    unfolding w by (simp add: set_header_def split: list.splits)
  have ti: "title ws' = title ws" unfolding w by (simp add: set_header_def)
  from l l' r t e ti show ?thesis
    by (simp add: row1_set_header tl_set_header)
qed

lemma cvalue_style_header_cell [simp]: "cvalue (style_header_cell l c) = cvalue c"
  by (simp add: style_header_cell_def Let_def)

lemma style_loop_Inr:
  assumes "distinct ks" and "style_loop ev ks ws = Inr ws'"
  shows "title ws' = title ws \<and> tl (cells ws') = tl (cells ws)
     \<and> length (row1 ws') = length (row1 ws) \<and> (cells ws' = [] \<longleftrightarrow> cells ws = [])
     \<and> (\<forall>k\<in>set ks. get_column_letter k = Inr (rev (letters_loop k [])))
     \<and> (\<forall>j<length (row1 ws). row1 ws' ! j =
           (if Suc j \<in> set ks
            then style_header_cell (rev (letters_loop (Suc j) [])) (row1 ws ! j)
            else row1 ws ! j))"
  using assms
proof (induction ks arbitrary: ws)
  case Nil
  then show ?case by simp
next
  case (Cons k ks)
  from Cons.prems(2) obtain ws1 where s1: "style_column ev k ws = Inr ws1"
    and s2: "style_loop ev ks ws1 = Inr ws'"
    by (auto split: sum.splits)
  note c = style_column_Inr[OF s1]
  have d: "distinct ks" "k \<notin> set ks" using Cons.prems(1) by simp_all
  note ih = Cons.IH[OF d(1) s2]
  have k1: "1 \<le> k" using c by (auto simp: get_column_letter_def split: if_splits)
  have len: "length (row1 ws1) = length (row1 ws)" using c by simp
  have "\<forall>j<length (row1 ws). row1 ws' ! j =
           (if Suc j \<in> set (k # ks)
            then style_header_cell (rev (letters_loop (Suc j) [])) (row1 ws ! j)
            else row1 ws ! j)"
  proof (intro allI impI)
    fix j assume j: "j < length (row1 ws)"
    then have i: "row1 ws' ! j =
           (if Suc j \<in> set ks
            then style_header_cell (rev (letters_loop (Suc j) [])) (row1 ws1 ! j)
            else row1 ws1 ! j)" using ih len by simp
    show "row1 ws' ! j =
           (if Suc j \<in> set (k # ks)
            then style_header_cell (rev (letters_loop (Suc j) [])) (row1 ws ! j)
            else row1 ws ! j)"
    proof (cases "Suc j = k")
      case True
      then have "Suc j \<notin> set ks" using d(2) by simp
      moreover have "k - 1 = j" using True by simp
      ultimately show ?thesis using i c j True by simp
    next
      case False
      then have "k - 1 \<noteq> j" using k1 by auto
      then have "row1 ws1 ! j = row1 ws ! j" using c by simp
      then show ?thesis using i False by auto
    qed
  qed
  with c ih len show ?case by simp
qed

lemma style_loop_succeeds:
  "\<forall>k\<in>set ks. 1 \<le> k \<and> k \<le> 18278 \<Longrightarrow> \<exists>ws'. style_loop ev ks ws = Inr ws'"
proof (induction ks arbitrary: ws)
  case Nil
  then show ?case by simp
next
  case (Cons k ks)
  then obtain l where "get_column_letter k = Inr l" using get_column_letter_ok[of k] by auto
  then obtain ws1 where "style_column ev k ws = Inr ws1"
    by (simp add: style_column_def Let_def)
  moreover obtain ws' where "style_loop ev ks ws1 = Inr ws'" using Cons by auto
  ultimately show ?case by simp
qed

lemma style_sheet_succeeds:
  "length (row1 ws) \<le> 18278 \<Longrightarrow> \<exists>ws'. style_sheet ev ws = Inr ws'"
  unfolding style_sheet_def by (rule style_loop_succeeds) auto

lemma style_sheet_Inr:
  assumes "style_sheet ev ws = Inr ws'"
  shows "title ws' = title ws \<and> sheet_values ws' = sheet_values ws
     \<and> (unfilled ws \<longrightarrow> header_styled ws')"
proof -
  have d: "distinct [1..<length (row1 ws) + 1]" by simp
  note s = style_loop_Inr[OF d assms[unfolded style_sheet_def]]
  have len: "length (row1 ws') = length (row1 ws)" using s by simp
  have mem: "\<And>j. j < length (row1 ws) \<Longrightarrow> Suc j \<in> set [1..<length (row1 ws) + 1]"
    by auto
  have nth: "row1 ws' ! j = style_header_cell (rev (letters_loop (Suc j) [])) (row1 ws ! j)"
    if j: "j < length (row1 ws)" for j
  proof -
    from s j have "row1 ws' ! j =
           (if Suc j \<in> set [1..<length (row1 ws) + 1]
            then style_header_cell (rev (letters_loop (Suc j) [])) (row1 ws ! j)
            else row1 ws ! j)" by blast
    with mem[OF j] show ?thesis by (simp only: if_True)
  qed
  have gl: "get_column_letter (Suc j) = Inr (rev (letters_loop (Suc j) []))"
    if j: "j < length (row1 ws)" for j
    using s mem[OF j] by blast
  have v1: "map cvalue (row1 ws') = map cvalue (row1 ws)"
    using len nth by (intro nth_equalityI) simp_all
  have sv: "sheet_values ws' = sheet_values ws"
  proof (cases "cells ws = []")
    case True
    then have "cells ws' = []" using s by simp
    with True show ?thesis by (simp add: sheet_values_def)
  next
    case False
    then have "cells ws' \<noteq> []" using s by simp
    then have "cells ws' = row1 ws' # tl (cells ws)" using cells_row1_tl[of ws'] s by simp
    moreover have "cells ws = row1 ws # tl (cells ws)" using cells_row1_tl[OF False] .
    ultimately show ?thesis using v1 by (metis list.simps(9) sheet_values_def)
  qed
  have hs: "header_styled ws'" if u: "unfilled ws"
  proof -
    have f0: "\<And>j. j < length (row1 ws) \<Longrightarrow> fill (row1 ws ! j) = None"
    proof -
      fix j assume j: "j < length (row1 ws)"
      then have ne: "cells ws \<noteq> []" by (auto simp: row1_def)
      then have "row1 ws \<in> set (cells ws)" using cells_row1_tl[OF ne] by (metis list.set_intros(1))
      then show "fill (row1 ws ! j) = None" using u j by (auto simp: unfilled_def)
    qed
    have a: "\<forall>c\<in>set (row1 ws'). bold c \<and> horizontal c = Some ''center'' \<and> vertical c = Some ''center''"
    proof
      fix c assume "c \<in> set (row1 ws')"
      then obtain j where "j < length (row1 ws')" "c = row1 ws' ! j" by (auto simp: in_set_conv_nth)
      then show "bold c \<and> horizontal c = Some ''center'' \<and> vertical c = Some ''center''"
        using nth len by (simp add: style_header_cell_def Let_def)
    qed
    have b: "\<forall>j<length (row1 ws').
            fill (row1 ws' ! j) = (if j + 1 = 1 \<or> j + 1 = 16 then Some ''FFC000'' else None)"
    proof (intro allI impI)
      fix j assume j: "j < length (row1 ws')"
      then have j': "j < length (row1 ws)" using len by simp
      have ap: "rev (letters_loop (Suc j) []) \<in> set [''A'', ''P''] \<longleftrightarrow> Suc j = 1 \<or> Suc j = 16"
        using get_column_letter_A_P[OF gl[OF j']] .
      show "fill (row1 ws' ! j) = (if j + 1 = 1 \<or> j + 1 = 16 then Some ''FFC000'' else None)"
      proof (cases "Suc j = 1 \<or> Suc j = 16")
        case True
        then have "rev (letters_loop (Suc j) []) \<in> set [''A'', ''P'']" using ap by blast
        then show ?thesis using True nth[OF j'] by (simp add: style_header_cell_def Let_def)
      next
        case False
        then have "rev (letters_loop (Suc j) []) \<notin> set [''A'', ''P'']" using ap by blast
        then show ?thesis using False nth[OF j'] f0[OF j']
          by (simp add: style_header_cell_def Let_def)
      qed
    qed
    have c: "\<forall>r\<in>set (tl (cells ws')). \<forall>c\<in>set r. fill c = None"
    proof -
      have "set (tl (cells ws)) \<subseteq> set (cells ws)" by (cases "cells ws") auto
      then show ?thesis using s u by (auto simp: unfilled_def)
    qed
    from a b c show ?thesis by (simp add: header_styled_def)
  qed
  from s sv hs show ?thesis by blast
qed

lemma to_excel_Inr:
  assumes "to_excel ev df name = Inr ws"
  shows "title ws = name \<and> sheet_values ws = table_values ev df \<and> unfilled ws
     \<and> length (row1 ws) = length (columns df) \<and> length (columns df) \<le> 16384"
proof -
  from assms have w: "ws = \<lparr>title = name,
                cells = map header_cell (header_values ev df)
                        # map (map plain_cell) (body_values ev df (take 1048575 (rows df))),
                column_width = (\<lambda>l. None)\<rparr>" and c: "length (columns df) \<le> 16384"
    by (auto simp: to_excel_def split: if_splits)
  have 1: "sheet_values ws = table_values ev df"
    unfolding w by (simp add: sheet_values_def table_values_def header_cell_def plain_cell_def comp_def)
  have 2: "unfilled ws"
    unfolding w by (auto simp: unfilled_def header_cell_def plain_cell_def)
  have 3: "length (row1 ws) = length (columns df)"
    unfolding w by (simp add: row1_def header_values_def)
  from w 1 2 3 c show ?thesis by simp
qed

lemma to_excel_succeeds:
  "length (rows df) \<le> 1048576 \<Longrightarrow> length (columns df) \<le> 16384 \<Longrightarrow> \<exists>ws. to_excel ev df name = Inr ws"
  by (simp add: to_excel_def)

subsection \<open>The workbooks the two functions leave\<close>

lemma and_then_Inr_iff: "and_then m f = Inr y \<longleftrightarrow> (\<exists>x. m = Inr x \<and> f x = Inr y)"
  by (cases m) (simp_all add: and_then_def)

lemma and_then_Inl_iff:
  "and_then m f = Inl e \<longleftrightarrow> m = Inl e \<or> (\<exists>x. m = Inr x \<and> f x = Inl e)"
  by (cases m) (simp_all add: and_then_def)

lemma excel_writer_two:
  "excel_writer ev out [(y, a), (n, b)] = Inr w \<longleftrightarrow>
     (\<exists>s1 s2. to_excel ev y a = Inr s1 \<and> to_excel ev n b = Inr s2
        \<and> \<not> fails ev (WriteXlsx out) \<and> w = [s1, s2])"
  by (auto split: sum.splits if_splits)

lemma excel_writer_one:
  "excel_writer ev out [(c, a)] = Inr w \<longleftrightarrow>
     (\<exists>s. to_excel ev c a = Inr s \<and> \<not> fails ev (WriteXlsx out) \<and> w = [s])"
  by (auto split: sum.splits if_splits)

lemma style_named_one:
  "title s = a \<Longrightarrow> style_named ev a [s] = Inr w \<longleftrightarrow> (\<exists>s'. style_sheet ev s = Inr s' \<and> w = [s'])"
  by (auto split: sum.splits)

lemma style_sheets_two:
  assumes "title s1 = a" "title s2 = b" "a \<noteq> b"
  shows "style_sheets ev [a, b] [s1, s2] = Inr w \<longleftrightarrow>
     (\<exists>s1' s2'. style_sheet ev s1 = Inr s1' \<and> style_sheet ev s2 = Inr s2' \<and> w = [s1', s2'])"
proof (cases "style_sheet ev s1")
  case (Inl e)
  then show ?thesis using assms by simp
next
  case (Inr s1')
  then have t: "title s1' = a" using style_sheet_Inr[OF Inr] assms(1) by simp
  show ?thesis using Inr t assms by (auto split: sum.splits)
qed

lemma process_and_format_Inr_iff:
  "process_and_format ev file out = Inr wb \<longleftrightarrow>
     (\<exists>df y n s1 s2 s1' s2'. file = Inr df \<and> check_required df = Inr ()
        \<and> df_yes ev df = Inr y \<and> df_no ev df = Inr n
        \<and> to_excel ev y ''GovtCAN_Yes'' = Inr s1 \<and> to_excel ev n ''GovtCAN_No'' = Inr s2
        \<and> style_sheet ev s1 = Inr s1' \<and> style_sheet ev s2 = Inr s2'
        \<and> \<not> fails ev (WriteXlsx out) \<and> \<not> fails ev (LoadXlsx out) \<and> \<not> fails ev (SaveXlsx out)
        \<and> wb = [s1', s2'])"
  (is "?L \<longleftrightarrow> ?R")
proof
  assume ?L
  then obtain df y n written wb0 wb' where
    f: "file = Inr df" and c: "check_required df = Inr ()"
    and y: "df_yes ev df = Inr y" and n: "df_no ev df = Inr n"
    and w: "excel_writer ev out [(y, ''GovtCAN_Yes''), (n, ''GovtCAN_No'')] = Inr written"
    and l: "load_workbook ev out written = Inr wb0"
    and s: "style_sheets ev [''GovtCAN_Yes'', ''GovtCAN_No''] wb0 = Inr wb'"
    and v: "save ev out wb' = Inr wb"
    unfolding process_and_format_def and_then_Inr_iff by auto
  from w obtain s1 s2 where e: "to_excel ev y ''GovtCAN_Yes'' = Inr s1" "to_excel ev n ''GovtCAN_No'' = Inr s2"
    "\<not> fails ev (WriteXlsx out)" "written = [s1, s2]"
    unfolding excel_writer_two by blast
  from l have l': "\<not> fails ev (LoadXlsx out)" "wb0 = written"
    by (auto simp: load_workbook_def split: if_splits)
  from v have v': "\<not> fails ev (SaveXlsx out)" "wb = wb'"
    by (auto simp: save_def split: if_splits)
  have t: "title s1 = ''GovtCAN_Yes''" "title s2 = ''GovtCAN_No''"
    using to_excel_Inr e by blast+
  from s[unfolded l'(2) e(4)] obtain s1' s2' where
    "style_sheet ev s1 = Inr s1'" "style_sheet ev s2 = Inr s2'" "wb' = [s1', s2']"
    using style_sheets_two[OF t, of ev wb'] by auto
  with f c y n e l' v' show ?R by blast
next
  assume ?R
  then obtain df y n s1 s2 s1' s2' where
    f: "file = Inr df" and c: "check_required df = Inr ()"
    and y: "df_yes ev df = Inr y" and n: "df_no ev df = Inr n"
    and e: "to_excel ev y ''GovtCAN_Yes'' = Inr s1" "to_excel ev n ''GovtCAN_No'' = Inr s2"
    and st: "style_sheet ev s1 = Inr s1'" "style_sheet ev s2 = Inr s2'"
    and io: "\<not> fails ev (WriteXlsx out)" "\<not> fails ev (LoadXlsx out)" "\<not> fails ev (SaveXlsx out)"
    and wb: "wb = [s1', s2']" by blast
  have w: "excel_writer ev out [(y, ''GovtCAN_Yes''), (n, ''GovtCAN_No'')] = Inr [s1, s2]"
    using e io(1) excel_writer_two by blast
  have t: "title s1 = ''GovtCAN_Yes''" "title s2 = ''GovtCAN_No''"
    using to_excel_Inr e by blast+
  have s: "style_sheets ev [''GovtCAN_Yes'', ''GovtCAN_No''] [s1, s2] = Inr [s1', s2']"
    using style_sheets_two[OF t, of ev "[s1', s2']"] st by auto
  show ?L
    unfolding process_and_format_def using f c y n w s io wb
    by (simp add: and_then_def load_workbook_def save_def)
qed

lemma process_combined_files_Inr_iff:
  "process_combined_files ev file_a file_b out = Inr wb \<longleftrightarrow>
     (\<exists>df_a df_b s s'. file_a = Inr df_a \<and> file_b = Inr df_b
        \<and> to_excel ev (combined_df df_a df_b) ''Combined'' = Inr s \<and> style_sheet ev s = Inr s'
        \<and> \<not> fails ev (WriteXlsx out) \<and> \<not> fails ev (LoadXlsx out) \<and> \<not> fails ev (SaveXlsx out)
        \<and> wb = [s'])"
  (is "?L \<longleftrightarrow> ?R")
proof
  assume ?L
  then obtain df_a df_b written wb0 wb' where
    f: "file_a = Inr df_a" "file_b = Inr df_b"
    and w: "excel_writer ev out [(combined_df df_a df_b, ''Combined'')] = Inr written"
    and l: "load_workbook ev out written = Inr wb0"
    and s: "style_named ev ''Combined'' wb0 = Inr wb'"
    and v: "save ev out wb' = Inr wb"
    unfolding process_combined_files_def and_then_Inr_iff by auto
  from w obtain s0 where e: "to_excel ev (combined_df df_a df_b) ''Combined'' = Inr s0"
    "\<not> fails ev (WriteXlsx out)" "written = [s0]"
    unfolding excel_writer_one by blast
  from l have l': "\<not> fails ev (LoadXlsx out)" "wb0 = written"
    by (auto simp: load_workbook_def split: if_splits)
  from v have v': "\<not> fails ev (SaveXlsx out)" "wb = wb'"
    by (auto simp: save_def split: if_splits)
  have t: "title s0 = ''Combined''" using to_excel_Inr e by blast
  from s[unfolded l'(2) e(3)] obtain s' where "style_sheet ev s0 = Inr s'" "wb' = [s']"
    using style_named_one[OF t, of ev wb'] by auto
  with f e l' v' show ?R by blast
next
  assume ?R
  then obtain df_a df_b s0 s' where
    f: "file_a = Inr df_a" "file_b = Inr df_b"
    and e: "to_excel ev (combined_df df_a df_b) ''Combined'' = Inr s0"
    and st: "style_sheet ev s0 = Inr s'"
    and io: "\<not> fails ev (WriteXlsx out)" "\<not> fails ev (LoadXlsx out)" "\<not> fails ev (SaveXlsx out)"
    and wb: "wb = [s']" by blast
  have w: "excel_writer ev out [(combined_df df_a df_b, ''Combined'')] = Inr [s0]"
    using e io(1) excel_writer_one by blast
  have t: "title s0 = ''Combined''" using to_excel_Inr e by blast
  have s: "style_named ev ''Combined'' [s0] = Inr [s']"
    using style_named_one[OF t, of ev "[s']"] st by auto
  show ?L
    unfolding process_combined_files_def using f w s io wb
    by (simp add: and_then_def load_workbook_def save_def)
qed


subsection \<open>When the two functions succeed, and what they leave\<close>

lemma sort_values_columns: "sort_values asort df name = Inr s \<Longrightarrow> columns s = columns df"
  by (auto simp: sort_values_def split: sum.splits)

lemma govt_split_columns: "govt_split ev df flag = Inr s \<Longrightarrow> columns s = columns df"
  using govt_split_Inr[of ev df flag s] sort_values_columns by fastforce

lemma govt_split_length:
  assumes "argsort_ok (argsort ev)" and "govt_split ev df flag = Inr s"
  shows "length (rows s) \<le> length (rows df)"
proof -
  have "size (mset (rows s)) = size (mset (filter (\<lambda>r. value_in df ''ISGOVTCAN'' r = Str flag) (rows df)))"
    using govt_split_rows[OF assms] by simp
  then show ?thesis by (simp only: size_mset) simp
qed

lemma style_sheet_after_to_excel:
  assumes "to_excel ev df name = Inr s"
  shows "\<exists>s'. style_sheet ev s = Inr s'"
  using to_excel_Inr[OF assms] style_sheet_succeeds[of s ev] by simp

text \<open>What a workbook left by \<open>process_and_format\<close> holds.\<close>

lemma process_and_format_values:
  assumes "process_and_format ev file out = Inr wb"
  shows "\<exists>df y n. file = Inr df \<and> check_required df = Inr ()
     \<and> df_yes ev df = Inr y \<and> df_no ev df = Inr n
     \<and> columns y = columns df \<and> columns n = columns df
     \<and> map (\<lambda>ws. (title ws, sheet_values ws)) wb
          = [(''GovtCAN_Yes'', table_values ev y), (''GovtCAN_No'', table_values ev n)]
     \<and> list_all header_styled wb"
proof -
  from assms obtain df y n s1 s2 s1' s2' where
    f: "file = Inr df" "check_required df = Inr ()" "df_yes ev df = Inr y" "df_no ev df = Inr n"
    and e: "to_excel ev y ''GovtCAN_Yes'' = Inr s1" "to_excel ev n ''GovtCAN_No'' = Inr s2"
    and st: "style_sheet ev s1 = Inr s1'" "style_sheet ev s2 = Inr s2'"
    and wb: "wb = [s1', s2']"
    unfolding process_and_format_Inr_iff by blast
  note t1 = to_excel_Inr[OF e(1)] and t2 = to_excel_Inr[OF e(2)]
  note u1 = style_sheet_Inr[OF st(1)] and u2 = style_sheet_Inr[OF st(2)]
  have c: "columns y = columns df" "columns n = columns df"
    using f govt_split_columns by (auto simp: df_yes_def df_no_def)
  have v: "map (\<lambda>ws. (title ws, sheet_values ws)) wb
          = [(''GovtCAN_Yes'', table_values ev y), (''GovtCAN_No'', table_values ev n)]"
    using wb t1 t2 u1 u2 by simp
  have h: "list_all header_styled wb" using wb t1 t2 u1 u2 by simp
  show ?thesis
    using f c v h by (intro exI[of _ df] exI[of _ y] exI[of _ n]) simp
qed

lemma process_and_format_succeeds:
  assumes "argsort_ok (argsort ev)" and "check_required df = Inr ()"
    and "sortable_column df ''LASTDEMAND''"
    and "length (rows df) \<le> 1048576" and "length (columns df) \<le> 16384"
    and "\<not> fails ev (WriteXlsx out)" and "\<not> fails ev (LoadXlsx out)" and "\<not> fails ev (SaveXlsx out)"
  shows "\<exists>wb. process_and_format ev (Inr df) out = Inr wb"
proof -
  obtain y where y: "df_yes ev df = Inr y"
    using govt_split_succeeds[OF assms(2,3)] by (auto simp: df_yes_def)
  obtain n where n: "df_no ev df = Inr n"
    using govt_split_succeeds[OF assms(2,3)] by (auto simp: df_no_def)
  have ly: "length (rows y) \<le> 1048576" "length (columns y) \<le> 16384"
    using govt_split_length[OF assms(1)] govt_split_columns y assms(4,5)
    by (fastforce simp: df_yes_def)+
  have ln: "length (rows n) \<le> 1048576" "length (columns n) \<le> 16384"
    using govt_split_length[OF assms(1)] govt_split_columns n assms(4,5)
    by (fastforce simp: df_no_def)+
  obtain s1 where s1: "to_excel ev y ''GovtCAN_Yes'' = Inr s1" using to_excel_succeeds[OF ly] by blast
  obtain s2 where s2: "to_excel ev n ''GovtCAN_No'' = Inr s2" using to_excel_succeeds[OF ln] by blast
  obtain s1' where s1': "style_sheet ev s1 = Inr s1'" using style_sheet_after_to_excel[OF s1] by blast
  obtain s2' where s2': "style_sheet ev s2 = Inr s2'" using style_sheet_after_to_excel[OF s2] by blast
  have "process_and_format ev (Inr df) out = Inr [s1', s2']"
    unfolding process_and_format_Inr_iff using assms(2,6,7,8) y n s1 s2 s1' s2' by blast
  then show ?thesis by blast
qed

lemma process_combined_files_values:
  assumes "process_combined_files ev file_a file_b out = Inr wb"
  shows "\<exists>df_a df_b. file_a = Inr df_a \<and> file_b = Inr df_b
     \<and> map (\<lambda>ws. (title ws, sheet_values ws)) wb
          = [(''Combined'', table_values ev (combined_df df_a df_b))]
     \<and> list_all header_styled wb"
proof -
  from assms obtain df_a df_b s s' where
    f: "file_a = Inr df_a" "file_b = Inr df_b"
    and e: "to_excel ev (combined_df df_a df_b) ''Combined'' = Inr s"
    and st: "style_sheet ev s = Inr s'" and wb: "wb = [s']"
    unfolding process_combined_files_Inr_iff by blast
  note t = to_excel_Inr[OF e] and u = style_sheet_Inr[OF st]
  from f wb t u show ?thesis by simp
qed

lemma process_combined_files_succeeds:
  assumes "length (rows df_a) + length (rows df_b) \<le> 1048576"
    and "length (columns (combined_df df_a df_b)) \<le> 16384"
    and "\<not> fails ev (WriteXlsx out)" and "\<not> fails ev (LoadXlsx out)" and "\<not> fails ev (SaveXlsx out)"
  shows "\<exists>wb. process_combined_files ev (Inr df_a) (Inr df_b) out = Inr wb"
proof -
  have "length (rows (combined_df df_a df_b)) = length (rows df_a) + length (rows df_b)"
    by (simp add: combined_df_def rows_pd_concat rows_set_column)
  then have "length (rows (combined_df df_a df_b)) \<le> 1048576" using assms(1) by simp
  then obtain s where s: "to_excel ev (combined_df df_a df_b) ''Combined'' = Inr s"
    using to_excel_succeeds assms(2) by blast
  obtain s' where s': "style_sheet ev s = Inr s'" using style_sheet_after_to_excel[OF s] by blast
  have "process_combined_files ev (Inr df_a) (Inr df_b) out = Inr [s']"
    unfolding process_combined_files_Inr_iff using assms(3,4,5) s s' by blast
  then show ?thesis by blast
qed

lemma columns_combined_df:
  "columns (combined_df df_a df_b) =
     (if ''HCC Type'' \<in> set (columns df_a) then columns df_a else columns df_a @ [''HCC Type''])
     @ filter (\<lambda>c. c \<noteq> ''HCC Type'' \<and> c \<notin> set (columns df_a)) (columns df_b)"
  by (auto simp: combined_df_def columns_pd_concat columns_set_column intro: filter_cong)

subsection \<open>The request handlers\<close>

lemma single_try_Inr_iff:
  "single_try ev file tin tout = Inr wb \<longleftrightarrow>
     \<not> fails ev (TempFile tin) \<and> \<not> fails ev (SaveUpload tin) \<and> \<not> fails ev (TempFile tout)
     \<and> process_and_format ev (content file) tout = Inr wb \<and> \<not> fails ev (ReadFile tout)"
  by (auto simp: single_try_def and_then_def split: sum.splits if_splits)

lemma combined_try_Inr_iff:
  "combined_try ev file_a file_b tp = Inr entries \<longleftrightarrow>
     \<not> fails ev (TempFile (temp_a_path tp)) \<and> \<not> fails ev (SaveUpload (temp_a_path tp))
     \<and> \<not> fails ev (TempFile (temp_b_path tp)) \<and> \<not> fails ev (SaveUpload (temp_b_path tp))
     \<and> \<not> fails ev (TempFile (temp_out_a_path tp)) \<and> \<not> fails ev (TempFile (temp_out_b_path tp))
     \<and> \<not> fails ev (TempFile (temp_combined_path tp))
     \<and> \<not> fails ev (ZipWrite (temp_out_a_path tp)) \<and> \<not> fails ev (ZipWrite (temp_out_b_path tp))
     \<and> \<not> fails ev (ZipWrite (temp_combined_path tp))
     \<and> (\<exists>out_a out_b out_combined.
          process_and_format ev (content file_a) (temp_out_a_path tp) = Inr out_a
        \<and> process_and_format ev (content file_b) (temp_out_b_path tp) = Inr out_b
        \<and> process_combined_files ev (content file_a) (content file_b) (temp_combined_path tp)
             = Inr out_combined
        \<and> entries = [(''Unbilled_CAT_A.xlsx'', out_a), (''Unbilled_CAT_B.xlsx'', out_b),
                      (''Unbilled_CAT_A_and_B_Combined.xlsx'', out_combined)])"
  unfolding combined_try_def
  by (cases "process_and_format ev (content file_a) (temp_out_a_path tp)";
      cases "process_and_format ev (content file_b) (temp_out_b_path tp)";
      cases "process_combined_files ev (content file_a) (content file_b) (temp_combined_path tp)")
     (auto simp: and_then_def)

lemma process_single_SendFile_iff:
  "process_single ev field category tin tout = SendFile name data \<longleftrightarrow>
     (\<exists>file wb. field = Some file \<and> filename file \<noteq> [] \<and> allowed_file (filename file)
        \<and> single_try ev file tin tout = Inr wb
        \<and> name = ''Unbilled_CAT_'' @ category @ ''.xlsx'' \<and> data = Xlsx wb)"
  by (auto simp: process_single_def split: option.splits sum.splits)

lemma process_single_Redirect:
  assumes "\<forall>file. field = Some file \<longrightarrow> (\<exists>e. single_try ev file tin tout = Inl e)"
  shows "\<exists>msg eo. process_single ev field category tin tout = Redirect msg eo"
  using assms by (auto simp: process_single_def split: option.splits sum.splits)

lemma process_combined_SendFile_iff:
  "process_combined ev field_a field_b tp = SendFile name data \<longleftrightarrow>
     (\<exists>file_a file_b entries. field_a = Some file_a \<and> field_b = Some file_b
        \<and> filename file_a \<noteq> [] \<and> filename file_b \<noteq> []
        \<and> allowed_file (filename file_a) \<and> allowed_file (filename file_b)
        \<and> combined_try ev file_a file_b tp = Inr entries
        \<and> name = ''processed_files.zip'' \<and> data = Zip entries)"
  by (auto simp: process_combined_def split: option.splits sum.splits)

lemma process_combined_Redirect:
  assumes "\<forall>file_a file_b. field_a = Some file_a \<and> field_b = Some file_b
     \<longrightarrow> (\<exists>e. combined_try ev file_a file_b tp = Inl e)"
  shows "\<exists>msg eo. process_combined ev field_a field_b tp = Redirect msg eo"
  using assms by (auto simp: process_combined_def split: option.splits sum.splits)

lemma allowed_file_nonempty: "allowed_file fname \<Longrightarrow> fname \<noteq> []"
  by (auto simp: allowed_file_def)

lemma length_columns_combined_df:
  "length (columns (combined_df df_a df_b)) \<le> length (columns df_a) + length (columns df_b) + 1"
proof -
  have "length (filter (\<lambda>c. c \<noteq> ''HCC Type'' \<and> c \<notin> set (columns df_a)) (columns df_b))
      \<le> length (columns df_b)" by (rule length_filter_le)
  then show ?thesis by (auto simp: columns_combined_df intro: le_SucI)
qed


subsection \<open>The values in the sheets\<close>


lemma length_row_values: "length (row_values ev df i r) = length r"
  by (simp add: row_values_def)

lemma length_body_values: "length (body_values ev df rs) = length rs"
  by (simp add: body_values_def)

lemma nth_body_values:
  "i < length rs \<Longrightarrow> body_values ev df rs ! i = row_values ev df i (rs ! i)"
  by (simp add: body_values_def nth_enumerate_eq)

lemma set_body_values:
  assumes "vs \<in> set (body_values ev df rs)"
  shows "\<exists>i<length rs. vs = row_values ev df i (rs ! i)"
proof -
  from assms obtain i where "i < length (body_values ev df rs)" "vs = body_values ev df rs ! i"
    by (auto simp: in_set_conv_nth)
  then show ?thesis using nth_body_values[of i rs ev df] by (auto simp: length_body_values)
qed

text \<open>A plain text of the frame is the text of the cell, in a row and in the header.\<close>

lemma row_values_plain:
  assumes "j < length r" and "r ! j = Str s" and "plain_text s"
  shows "row_values ev df i r ! j = XStr s"
proof -
  have "s \<noteq> []" using assms(3) by (simp add: plain_text_def)
  then show ?thesis using assms by (simp add: row_values_def nth_enumerate_eq)
qed


lemma value_in_Str_nth:
  assumes "value_in df name r = Str s" and "col_pos name (columns df) = Some j"
  shows "j < length r \<and> r ! j = Str s"
  using assms by (auto simp: value_in_def cell_at_def split: if_splits)

lemma row_values_flag:
  assumes "value_in df name r = Str s" and "col_pos name (columns df) = Some j" and "plain_text s"
  shows "j < length (row_values ev d i r) \<and> row_values ev d i r ! j = XStr s"
  using value_in_Str_nth[OF assms(1,2)] row_values_plain[of j r s ev d i] assms(3)
  by (simp add: length_row_values)

lemma plain_Yes_No: "plain_text ''Yes''" "plain_text ''No''"
  by (simp_all add: plain_text_def)


text \<open>
  The body of a sheet written from a frame whose rows all hold the same plain text under
  a column: every row of the sheet holds that text there.
\<close>

lemma sheet_flag_cells:
  assumes v: "sheet_values ws = table_values ev s"
    and f: "\<forall>r\<in>set (rows s). value_in df name r = Str flag"
    and j: "col_pos name (columns df) = Some j" and p: "plain_text flag"
  shows "tl (sheet_values ws) = body_values ev s (take 1048575 (rows s))"
    and "length (tl (sheet_values ws)) = min 1048575 (length (rows s))"
    and "\<forall>vs\<in>set (tl (sheet_values ws)). j < length vs \<and> vs ! j = XStr flag"
proof -
  show b: "tl (sheet_values ws) = body_values ev s (take 1048575 (rows s))"
    using v by (simp add: table_values_def)
  show "length (tl (sheet_values ws)) = min 1048575 (length (rows s))"
    unfolding b by (simp add: length_body_values min.commute)
  show "\<forall>vs\<in>set (tl (sheet_values ws)). j < length vs \<and> vs ! j = XStr flag"
  proof
    fix vs assume "vs \<in> set (tl (sheet_values ws))"
    then obtain i where i: "i < length (take 1048575 (rows s))"
      and vs: "vs = row_values ev s i (take 1048575 (rows s) ! i)"
      unfolding b using set_body_values by blast
    have "take 1048575 (rows s) ! i \<in> set (rows s)"
      using i by (metis in_set_takeD nth_mem)
    then have "value_in df name (take 1048575 (rows s) ! i) = Str flag" using f by blast
    then show "j < length vs \<and> vs ! j = XStr flag"
      unfolding vs by (rule row_values_flag[OF _ j p])
  qed
qed




text \<open>
  A row that holds under a column something other than the text \<open>flag\<close> (a missing
  value, a number, a boolean, the empty text or another plain text) is not written as a
  row that holds \<open>flag\<close> there.
\<close>

lemma row_values_not_flag:
  assumes j: "col_pos name (columns df) = Some j" and ne: "value_in df name r \<noteq> Str flag"
    and p: "\<forall>s. value_in df name r = Str s \<longrightarrow> s = [] \<or> plain_text s"
  shows "\<not> (j < length (row_values ev d i r) \<and> row_values ev d i r ! j = XStr flag)"
proof
  assume a: "j < length (row_values ev d i r) \<and> row_values ev d i r ! j = XStr flag"
  then have l: "j < length r" by (simp add: length_row_values)
  then have v: "value_in df name r = r ! j" using j by (simp add: value_in_def cell_at_def)
  have w: "row_values ev d i r ! j = cell_written ev d (Suc i) j (r ! j)"
    using l by (simp add: row_values_def nth_enumerate_eq)
  show False
  proof (cases "r ! j")
    case (Str s)
    then have "s = [] \<or> plain_text s" using p v by simp
    then show False using a w Str ne v by (auto split: if_splits)
  qed (use a w in auto)
qed

subsection \<open>Overwriting the label column\<close>

lemma stable_env_ok: "argsort_ok (argsort stable_env)"
  by (simp add: stable_env_def stable_argsort_ok)

lemma stable_env_fails: "\<forall>op. \<not> fails stable_env op"
  by (simp add: stable_env_def)

text \<open>Claim C5 on a table of one row and the table of the scenario.\<close>

theorem combined_df_rows_witness:
  "rectangular tagged_df \<and> rectangular scenario_df
   \<and> length (rows (combined_df tagged_df scenario_df)) = 4
   \<and> value_in (combined_df tagged_df scenario_df) ''HCC Type''
        (rows (combined_df tagged_df scenario_df) ! 0) = Str ''A''
   \<and> value_in (combined_df tagged_df scenario_df) ''HCC Type''
        (rows (combined_df tagged_df scenario_df) ! 3) = Str ''B''
   \<and> value_in (combined_df tagged_df scenario_df) ''DIVNCODE''
        (rows (combined_df tagged_df scenario_df) ! 3) = Num 3"
proof -
  have a: "rectangular tagged_df" by code_simp
  have b: "rectangular scenario_df" by code_simp
  have la: "length (rows tagged_df) = 1" by (simp add: tagged_df_def)
  have lb: "length (rows scenario_df) = 3" by (simp add: scenario_df_def)
  have d: "''DIVNCODE'' \<in> set (columns scenario_df)" by (simp add: scenario_df_def)
  have v: "value_in scenario_df ''DIVNCODE'' (rows scenario_df ! 2) = Num 3" by code_simp
  note t = combined_df_rows[OF a b]
  from t la lb have 1: "length (rows (combined_df tagged_df scenario_df)) = 4" by simp
  from t la have 2: "value_in (combined_df tagged_df scenario_df) ''HCC Type''
        (rows (combined_df tagged_df scenario_df) ! 0) = Str ''A''" by simp
  from t have "\<forall>i<length (rows scenario_df).
         value_in (combined_df tagged_df scenario_df) ''HCC Type''
           (rows (combined_df tagged_df scenario_df) ! (length (rows tagged_df) + i)) = Str ''B''"
    by blast
  moreover have two: "(2::nat) < length (rows scenario_df)" using lb by simp
  ultimately have "value_in (combined_df tagged_df scenario_df) ''HCC Type''
           (rows (combined_df tagged_df scenario_df) ! (length (rows tagged_df) + 2)) = Str ''B''"
    by blast
  have three: "length (rows tagged_df) + 2 = 3" using la by simp
  then have 3: "value_in (combined_df tagged_df scenario_df) ''HCC Type''
        (rows (combined_df tagged_df scenario_df) ! 3) = Str ''B''"
    using \<open>value_in (combined_df tagged_df scenario_df) ''HCC Type''
           (rows (combined_df tagged_df scenario_df) ! (length (rows tagged_df) + 2)) = Str ''B''\<close>
    by (simp only: three)
  have "value_in (combined_df tagged_df scenario_df) ''DIVNCODE''
           (rows (combined_df tagged_df scenario_df) ! (length (rows tagged_df) + 2))
           = value_in scenario_df ''DIVNCODE'' (rows scenario_df ! 2)"
    using t[THEN conjunct2, THEN conjunct2, THEN conjunct2, THEN conjunct2, rule_format, OF two d]
    by simp
  then have 4: "value_in (combined_df tagged_df scenario_df) ''DIVNCODE''
        (rows (combined_df tagged_df scenario_df) ! 3) = Num 3" by (simp only: three v)
  from a b 1 2 3 4 show ?thesis by blast
qed

lemma value_in_set_column_rows:
  assumes "rectangular df"
  shows "\<forall>r\<in>set (rows (set_column df name v)). value_in (set_column df name v) name r = v"
proof
  fix r assume "r \<in> set (rows (set_column df name v))"
  then obtain r0 where r0: "r0 \<in> set (rows df)" "r = set_cell df name v r0"
    by (auto simp: rows_set_column)
  then have "length r0 = length (columns df)"
    using assms by (simp add: rectangular_def list_all_iff)
  then show "value_in (set_column df name v) name r = v"
    using r0 value_in_set_cell_same by simp
qed

text \<open>
  Claim C4, as the code has it. Setting the column \<^verbatim>\<open>HCC Type\<close> of a rectangular frame
  never fails: where the frame already has the column, the column list is unchanged (the
  column keeps its position) and every row then holds the label in it, the old values
  being overwritten; where it has none, the column is appended as the last one. And
  \<^verbatim>\<open>process_combined_files\<close> succeeds on the frame, as the first or as the second table,
  whenever the tables fit a sheet and no input/output call fails, whether or not the
  column was there.
\<close>

theorem annotate_overwrites:
  assumes "rectangular df"
  shows "(''HCC Type'' \<in> set (columns df)
            \<longrightarrow> columns (set_column df ''HCC Type'' v) = columns df) \<and>
         (''HCC Type'' \<notin> set (columns df)
            \<longrightarrow> columns (set_column df ''HCC Type'' v) = columns df @ [''HCC Type'']) \<and>
         length (rows (set_column df ''HCC Type'' v)) = length (rows df) \<and>
         (\<forall>r\<in>set (rows (set_column df ''HCC Type'' v)).
             value_in (set_column df ''HCC Type'' v) ''HCC Type'' r = v) \<and>
         (\<forall>other::dataframe. length (rows df) + length (rows other) \<le> 1048576
               \<and> length (columns df) + length (columns other) < 16384
               \<and> (\<forall>op. \<not> fails ev op)
            \<longrightarrow> (\<exists>wb. process_combined_files ev (Inr df) (Inr other) output_file = Inr wb)
              \<and> (\<exists>wb. process_combined_files ev (Inr other) (Inr df) output_file = Inr wb))"
proof (intro conjI allI impI)
  show "length (rows (set_column df ''HCC Type'' v)) = length (rows df)"
    by (simp add: rows_set_column)
  show "\<forall>r\<in>set (rows (set_column df ''HCC Type'' v)).
             value_in (set_column df ''HCC Type'' v) ''HCC Type'' r = v"
    using value_in_set_column_rows[OF assms] .
next
  assume "''HCC Type'' \<in> set (columns df)"
  then show "columns (set_column df ''HCC Type'' v) = columns df"
    by (simp add: columns_set_column)
next
  assume "''HCC Type'' \<notin> set (columns df)"
  then show "columns (set_column df ''HCC Type'' v) = columns df @ [''HCC Type'']"
    by (simp add: columns_set_column)
next
  fix other :: dataframe
  assume h: "length (rows df) + length (rows other) \<le> 1048576
               \<and> length (columns df) + length (columns other) < 16384
               \<and> (\<forall>op. \<not> fails ev op)"
  have c1: "length (columns (combined_df df other)) \<le> 16384"
    using length_columns_combined_df[of df other] h by simp
  have c2: "length (columns (combined_df other df)) \<le> 16384"
    using length_columns_combined_df[of other df] h by simp
  show "\<exists>wb. process_combined_files ev (Inr df) (Inr other) output_file = Inr wb"
    using process_combined_files_succeeds[OF _ c1, of ev output_file] h by simp
  show "\<exists>wb. process_combined_files ev (Inr other) (Inr df) output_file = Inr wb"
    using process_combined_files_succeeds[OF _ c2, of ev output_file] h by simp
qed

theorem annotate_overwrites_witness:
  "rectangular tagged_df \<and> ''HCC Type'' \<in> set (columns tagged_df)
   \<and> columns (set_column tagged_df ''HCC Type'' (Str ''A'')) = columns tagged_df
   \<and> rows (set_column tagged_df ''HCC Type'' (Str ''A'')) = [[Str ''Yes'', Str ''A'', Num 7, Num 70]]
   \<and> (\<exists>wb. process_combined_files stable_env (Inr tagged_df) (Inr scenario_df) ''c.xlsx'' = Inr wb)"
proof -
  have a: "rectangular tagged_df" by code_simp
  have h: "''HCC Type'' \<in> set (columns tagged_df)" by (simp add: tagged_df_def)
  have r: "rows (set_column tagged_df ''HCC Type'' (Str ''A'')) = [[Str ''Yes'', Str ''A'', Num 7, Num 70]]"
    by code_simp
  have l: "length (rows tagged_df) + length (rows scenario_df) \<le> 1048576
       \<and> length (columns tagged_df) + length (columns scenario_df) < 16384"
    by (simp add: tagged_df_def scenario_df_def)
  note t = annotate_overwrites[OF a, of "Str ''A''" stable_env "''c.xlsx''"]
  from t h have 1: "columns (set_column tagged_df ''HCC Type'' (Str ''A'')) = columns tagged_df"
    by blast
  from t l stable_env_fails
  have 2: "\<exists>wb. process_combined_files stable_env (Inr tagged_df) (Inr scenario_df) ''c.xlsx'' = Inr wb"
    by blast
  from a h 1 r 2 show ?thesis by blast
qed

text \<open>
  Claim C4 as stated fails: the first table already has a column \<^verbatim>\<open>HCC Type\<close>, holding
  \<^verbatim>\<open>Z\<close>; nothing is raised, and the combined frame holds \<^verbatim>\<open>A\<close> in its place.
\<close>

theorem annotate_overwrites_counterexample:
  "''HCC Type'' \<in> set (columns tagged_df)
   \<and> (\<exists>wb. process_combined_files stable_env (Inr tagged_df) (Inr scenario_df) ''c.xlsx'' = Inr wb)
   \<and> combined_df tagged_df scenario_df =
       \<lparr>columns = [''ISGOVTCAN'', ''HCC Type'', ''DIVNCODE'', ''LASTDEMAND''],
        rows = [[Str ''Yes'', Str ''A'', Num 7, Num 70],
                [Str ''Yes'', Str ''B'', Num 1, Num 100],
                [Str ''No'', Str ''B'', Num 2, Num 50],
                [Str ''Yes'', Str ''B'', Num 3, Num 200]]\<rparr>"
proof -
  have h: "''HCC Type'' \<in> set (columns tagged_df)" by (simp add: tagged_df_def)
  have r: "length (rows tagged_df) + length (rows scenario_df) \<le> 1048576"
    by (simp add: tagged_df_def scenario_df_def)
  have c: "combined_df tagged_df scenario_df =
       \<lparr>columns = [''ISGOVTCAN'', ''HCC Type'', ''DIVNCODE'', ''LASTDEMAND''],
        rows = [[Str ''Yes'', Str ''A'', Num 7, Num 70],
                [Str ''Yes'', Str ''B'', Num 1, Num 100],
                [Str ''No'', Str ''B'', Num 2, Num 50],
                [Str ''Yes'', Str ''B'', Num 3, Num 200]]\<rparr>"
    by code_simp
  have l: "length (columns (combined_df tagged_df scenario_df)) \<le> 16384"
    unfolding c by simp
  have s: "\<exists>wb. process_combined_files stable_env (Inr tagged_df) (Inr scenario_df) ''c.xlsx'' = Inr wb"
    using process_combined_files_succeeds[OF r l, of stable_env "''c.xlsx''"] stable_env_fails
    by simp
  from h s c show ?thesis by blast
qed

subsection \<open>The exact match on the flag, in the frames and in the sheets\<close>

text \<open>
  Claim C10. The half for \<^verbatim>\<open>Yes\<close> holds exactly the rows whose flag is the text \<^verbatim>\<open>Yes\<close>,
  the half for \<^verbatim>\<open>No\<close> exactly those whose flag is the text \<^verbatim>\<open>No\<close>, compared as
  written. A row with any other flag (another spelling, another case, missing) is in
  neither half, and its presence raises nothing: the split succeeds on any table that has
  the required columns and a sortable \<^verbatim>\<open>LASTDEMAND\<close> column, and \<^verbatim>\<open>process_and_format\<close>
  returns when, besides, the table fits a sheet and writing, loading and saving the file
  do not fail. The workbook \<^verbatim>\<open>process_and_format\<close> leaves has the two sheets
  \<^verbatim>\<open>GovtCAN_Yes\<close> and \<^verbatim>\<open>GovtCAN_No\<close>; below its header the first holds the rows of the
  half for \<^verbatim>\<open>Yes\<close> as they are written (the first 1048575 of them), as many as the table
  has rows flagged \<^verbatim>\<open>Yes\<close> up to that number, and each of these sheet rows holds the text
  \<^verbatim>\<open>Yes\<close> in the column of \<^verbatim>\<open>ISGOVTCAN\<close>; the second does so for \<^verbatim>\<open>No\<close>. A row whose
  flag is something other than \<^verbatim>\<open>Yes\<close> (missing, a number, a boolean, the empty text or
  another plain text), written at whatever place, is no row of the first sheet, and one
  whose flag is other than \<^verbatim>\<open>No\<close> is no row of the second.
\<close>

theorem split_exact_match:
  assumes "argsort_ok (argsort ev)"
  shows "(check_required df = Inr () \<and> sortable_column df ''LASTDEMAND''
            \<longrightarrow> (\<exists>y n. df_yes ev df = Inr y \<and> df_no ev df = Inr n)) \<and>
         (\<forall>y n. df_yes ev df = Inr y \<and> df_no ev df = Inr n \<longrightarrow>
            mset (rows y) = mset (filter (\<lambda>r. value_in df ''ISGOVTCAN'' r = Str ''Yes'') (rows df)) \<and>
            mset (rows n) = mset (filter (\<lambda>r. value_in df ''ISGOVTCAN'' r = Str ''No'') (rows df)) \<and>
            (\<forall>r\<in>set (rows y). value_in df ''ISGOVTCAN'' r = Str ''Yes'') \<and>
            (\<forall>r\<in>set (rows n). value_in df ''ISGOVTCAN'' r = Str ''No'') \<and>
            (\<forall>r. value_in df ''ISGOVTCAN'' r \<noteq> Str ''Yes'' \<and> value_in df ''ISGOVTCAN'' r \<noteq> Str ''No''
                 \<longrightarrow> r \<notin> set (rows y) \<and> r \<notin> set (rows n))) \<and>
         (check_required df = Inr () \<and> sortable_column df ''LASTDEMAND''
            \<and> length (rows df) \<le> 1048576 \<and> length (columns df) \<le> 16384
            \<and> \<not> fails ev (WriteXlsx output_file) \<and> \<not> fails ev (LoadXlsx output_file)
            \<and> \<not> fails ev (SaveXlsx output_file)
            \<longrightarrow> (\<exists>wb. process_and_format ev (Inr df) output_file = Inr wb)) \<and>
         (\<forall>wb. process_and_format ev (Inr df) output_file = Inr wb \<longrightarrow>
            (\<exists>y n s1 s2 j.
                df_yes ev df = Inr y \<and> df_no ev df = Inr n \<and> wb = [s1, s2]
              \<and> title s1 = ''GovtCAN_Yes'' \<and> title s2 = ''GovtCAN_No''
              \<and> col_pos ''ISGOVTCAN'' (columns df) = Some j
              \<and> tl (sheet_values s1) = body_values ev y (take 1048575 (rows y))
              \<and> tl (sheet_values s2) = body_values ev n (take 1048575 (rows n))
              \<and> length (tl (sheet_values s1))
                  = min 1048575 (length (filter (\<lambda>r. value_in df ''ISGOVTCAN'' r = Str ''Yes'') (rows df)))
              \<and> length (tl (sheet_values s2))
                  = min 1048575 (length (filter (\<lambda>r. value_in df ''ISGOVTCAN'' r = Str ''No'') (rows df)))
              \<and> (\<forall>vs\<in>set (tl (sheet_values s1)). j < length vs \<and> vs ! j = XStr ''Yes'')
              \<and> (\<forall>vs\<in>set (tl (sheet_values s2)). j < length vs \<and> vs ! j = XStr ''No'')
              \<and> (\<forall>r i d. value_in df ''ISGOVTCAN'' r \<noteq> Str ''Yes''
                     \<and> (\<forall>s. value_in df ''ISGOVTCAN'' r = Str s \<longrightarrow> s = [] \<or> plain_text s)
                     \<longrightarrow> row_values ev d i r \<notin> set (tl (sheet_values s1)))
              \<and> (\<forall>r i d. value_in df ''ISGOVTCAN'' r \<noteq> Str ''No''
                     \<and> (\<forall>s. value_in df ''ISGOVTCAN'' r = Str s \<longrightarrow> s = [] \<or> plain_text s)
                     \<longrightarrow> row_values ev d i r \<notin> set (tl (sheet_values s2)))))"
proof (intro conjI allI impI)
  assume "check_required df = Inr () \<and> sortable_column df ''LASTDEMAND''"
  then show "\<exists>y n. df_yes ev df = Inr y \<and> df_no ev df = Inr n"
    using govt_split_succeeds[of df ev] by (simp add: df_yes_def df_no_def)
next
  fix y n
  assume yn: "df_yes ev df = Inr y \<and> df_no ev df = Inr n"
  let ?f = "\<lambda>r. value_in df ''ISGOVTCAN'' r"
  show y: "mset (rows y) = mset (filter (\<lambda>r. ?f r = Str ''Yes'') (rows df))"
    and n: "mset (rows n) = mset (filter (\<lambda>r. ?f r = Str ''No'') (rows df))"
    using yn govt_split_rows[OF assms] by (auto simp: df_yes_def df_no_def)
  have sy: "set (rows y) = set (filter (\<lambda>r. ?f r = Str ''Yes'') (rows df))"
    using y by (metis set_mset_mset)
  have sn: "set (rows n) = set (filter (\<lambda>r. ?f r = Str ''No'') (rows df))"
    using n by (metis set_mset_mset)
  show "\<forall>r\<in>set (rows y). ?f r = Str ''Yes''" using sy by simp
  show "\<forall>r\<in>set (rows n). ?f r = Str ''No''" using sn by simp
  fix r
  assume "?f r \<noteq> Str ''Yes'' \<and> ?f r \<noteq> Str ''No''"
  then show "r \<notin> set (rows y)" "r \<notin> set (rows n)" using sy sn by simp_all
next
  assume h: "check_required df = Inr () \<and> sortable_column df ''LASTDEMAND''
            \<and> length (rows df) \<le> 1048576 \<and> length (columns df) \<le> 16384
            \<and> \<not> fails ev (WriteXlsx output_file) \<and> \<not> fails ev (LoadXlsx output_file)
            \<and> \<not> fails ev (SaveXlsx output_file)"
  show "\<exists>wb. process_and_format ev (Inr df) output_file = Inr wb"
    by (rule process_and_format_succeeds[OF assms]) (simp_all only: h simp_thms)
next
  fix wb
  assume w: "process_and_format ev (Inr df) output_file = Inr wb"
  let ?f = "\<lambda>r. value_in df ''ISGOVTCAN'' r"
  from process_and_format_values[OF w] obtain df' y n where
    d: "Inr df = (Inr df' :: csv_file)" and c: "check_required df' = Inr ()"
    and y: "df_yes ev df' = Inr y" and n: "df_no ev df' = Inr n"
    and v: "map (\<lambda>ws. (title ws, sheet_values ws)) wb
          = [(''GovtCAN_Yes'', table_values ev y), (''GovtCAN_No'', table_values ev n)]"
    by (elim exE conjE) (rule that, assumption+)
  from d have dd: "df' = df" by simp
  note c = c[unfolded dd] and y = y[unfolded dd] and n = n[unfolded dd]
  from v obtain s1 s2 where wb: "wb = [s1, s2]"
    and t: "title s1 = ''GovtCAN_Yes''" "title s2 = ''GovtCAN_No''"
    and sv: "sheet_values s1 = table_values ev y" "sheet_values s2 = table_values ev n"
    by (cases wb; cases "tl wb") auto
  have "''ISGOVTCAN'' \<in> set (columns df)"
    using c by (simp add: check_required_Inr required_cols_def)
  then obtain j where j: "col_pos ''ISGOVTCAN'' (columns df) = Some j"
    using col_pos_Some_ex by blast
  have my: "mset (rows y) = mset (filter (\<lambda>r. ?f r = Str ''Yes'') (rows df))"
    and mn: "mset (rows n) = mset (filter (\<lambda>r. ?f r = Str ''No'') (rows df))"
    using y n govt_split_rows[OF assms] by (auto simp: df_yes_def df_no_def)
  have fy: "\<forall>r\<in>set (rows y). ?f r = Str ''Yes''"
  proof -
    have "set (rows y) = set (filter (\<lambda>r. ?f r = Str ''Yes'') (rows df))"
      using my by (metis set_mset_mset)
    then show ?thesis by simp
  qed
  have fn: "\<forall>r\<in>set (rows n). ?f r = Str ''No''"
  proof -
    have "set (rows n) = set (filter (\<lambda>r. ?f r = Str ''No'') (rows df))"
      using mn by (metis set_mset_mset)
    then show ?thesis by simp
  qed
  have ly: "length (rows y) = length (filter (\<lambda>r. ?f r = Str ''Yes'') (rows df))"
    using my by (metis size_mset)
  have ln: "length (rows n) = length (filter (\<lambda>r. ?f r = Str ''No'') (rows df))"
    using mn by (metis size_mset)
  note a1 = sheet_flag_cells[OF sv(1) fy j plain_Yes_No(1)]
  note a2 = sheet_flag_cells[OF sv(2) fn j plain_Yes_No(2)]
  have b1: "length (tl (sheet_values s1))
      = min 1048575 (length (filter (\<lambda>r. ?f r = Str ''Yes'') (rows df)))"
    using a1(2) ly by simp
  have b2: "length (tl (sheet_values s2))
      = min 1048575 (length (filter (\<lambda>r. ?f r = Str ''No'') (rows df)))"
    using a2(2) ln by simp
  have o1: "\<forall>r i d. ?f r \<noteq> Str ''Yes'' \<and> (\<forall>s. ?f r = Str s \<longrightarrow> s = [] \<or> plain_text s)
                     \<longrightarrow> row_values ev d i r \<notin> set (tl (sheet_values s1))"
  proof (intro allI impI)
    fix r i d
    assume h: "?f r \<noteq> Str ''Yes'' \<and> (\<forall>s. ?f r = Str s \<longrightarrow> s = [] \<or> plain_text s)"
    from row_values_not_flag[OF j, of r "''Yes''" ev d i] h a1(3)
    show "row_values ev d i r \<notin> set (tl (sheet_values s1))" by blast
  qed
  have o2: "\<forall>r i d. ?f r \<noteq> Str ''No'' \<and> (\<forall>s. ?f r = Str s \<longrightarrow> s = [] \<or> plain_text s)
                     \<longrightarrow> row_values ev d i r \<notin> set (tl (sheet_values s2))"
  proof (intro allI impI)
    fix r i d
    assume h: "?f r \<noteq> Str ''No'' \<and> (\<forall>s. ?f r = Str s \<longrightarrow> s = [] \<or> plain_text s)"
    from row_values_not_flag[OF j, of r "''No''" ev d i] h a2(3)
    show "row_values ev d i r \<notin> set (tl (sheet_values s2))" by blast
  qed
  show "\<exists>y n s1 s2 j.
                df_yes ev df = Inr y \<and> df_no ev df = Inr n \<and> wb = [s1, s2]
              \<and> title s1 = ''GovtCAN_Yes'' \<and> title s2 = ''GovtCAN_No''
              \<and> col_pos ''ISGOVTCAN'' (columns df) = Some j
              \<and> tl (sheet_values s1) = body_values ev y (take 1048575 (rows y))
              \<and> tl (sheet_values s2) = body_values ev n (take 1048575 (rows n))
              \<and> length (tl (sheet_values s1))
                  = min 1048575 (length (filter (\<lambda>r. value_in df ''ISGOVTCAN'' r = Str ''Yes'') (rows df)))
              \<and> length (tl (sheet_values s2))
                  = min 1048575 (length (filter (\<lambda>r. value_in df ''ISGOVTCAN'' r = Str ''No'') (rows df)))
              \<and> (\<forall>vs\<in>set (tl (sheet_values s1)). j < length vs \<and> vs ! j = XStr ''Yes'')
              \<and> (\<forall>vs\<in>set (tl (sheet_values s2)). j < length vs \<and> vs ! j = XStr ''No'')
              \<and> (\<forall>r i d. value_in df ''ISGOVTCAN'' r \<noteq> Str ''Yes''
                     \<and> (\<forall>s. value_in df ''ISGOVTCAN'' r = Str s \<longrightarrow> s = [] \<or> plain_text s)
                     \<longrightarrow> row_values ev d i r \<notin> set (tl (sheet_values s1)))
              \<and> (\<forall>r i d. value_in df ''ISGOVTCAN'' r \<noteq> Str ''No''
                     \<and> (\<forall>s. value_in df ''ISGOVTCAN'' r = Str s \<longrightarrow> s = [] \<or> plain_text s)
                     \<longrightarrow> row_values ev d i r \<notin> set (tl (sheet_values s2)))"
    by (insert y n wb t j a1(1) a2(1) b1 b2 a1(3) a2(3) o1 o2,
        rule exI[of _ y], rule exI[of _ n], rule exI[of _ s1], rule exI[of _ s2],
        rule exI[of _ j], intro conjI) assumption+
qed

text \<open>
  Claim C10 on a table with the flags \<^verbatim>\<open>yes\<close>, \<^verbatim>\<open>Yes\<close>, \<^verbatim>\<open>YES\<close>, \<^verbatim>\<open>Y\<close>, a missing
  flag and \<^verbatim>\<open>No\<close>: each sheet of the workbook has one row below its header.
\<close>

theorem split_exact_match_witness:
  "argsort_ok (argsort stable_env) \<and> check_required odd_flags_df = Inr ()
   \<and> sortable_column odd_flags_df ''LASTDEMAND''
   \<and> df_yes stable_env odd_flags_df =
       Inr \<lparr>columns = [''ISGOVTCAN'', ''DIVNCODE'', ''LASTDEMAND''],
            rows = [[Str ''Yes'', Num 2, Num 20]]\<rparr>
   \<and> df_no stable_env odd_flags_df =
       Inr \<lparr>columns = [''ISGOVTCAN'', ''DIVNCODE'', ''LASTDEMAND''],
            rows = [[Str ''No'', Num 6, Num 60]]\<rparr>
   \<and> (\<exists>y n. df_yes stable_env odd_flags_df = Inr y \<and> df_no stable_env odd_flags_df = Inr n
        \<and> [Str ''yes'', Num 1, Num 10] \<notin> set (rows y) \<and> [Str ''yes'', Num 1, Num 10] \<notin> set (rows n)
        \<and> [NaN, Num 5, Num 50] \<notin> set (rows y) \<and> [NaN, Num 5, Num 50] \<notin> set (rows n))
   \<and> (\<exists>s1 s2. process_and_format stable_env (Inr odd_flags_df) ''out.xlsx'' = Inr [s1, s2]
        \<and> title s1 = ''GovtCAN_Yes'' \<and> title s2 = ''GovtCAN_No''
        \<and> tl (sheet_values s1) = [[XStr ''Yes'', XNum 2, XNum 20]]
        \<and> tl (sheet_values s2) = [[XStr ''No'', XNum 6, XNum 60]])"
proof -
  note t = split_exact_match[OF stable_env_ok, of odd_flags_df "''out.xlsx''"]
  have c: "check_required odd_flags_df = Inr ()" by code_simp
  have s: "sortable_column odd_flags_df ''LASTDEMAND''" by code_simp
  have y: "df_yes stable_env odd_flags_df =
       Inr \<lparr>columns = [''ISGOVTCAN'', ''DIVNCODE'', ''LASTDEMAND''],
            rows = [[Str ''Yes'', Num 2, Num 20]]\<rparr>" by code_simp
  have n: "df_no stable_env odd_flags_df =
       Inr \<lparr>columns = [''ISGOVTCAN'', ''DIVNCODE'', ''LASTDEMAND''],
            rows = [[Str ''No'', Num 6, Num 60]]\<rparr>" by code_simp
  have v1: "value_in odd_flags_df ''ISGOVTCAN'' [Str ''yes'', Num 1, Num 10] \<noteq> Str ''Yes''
      \<and> value_in odd_flags_df ''ISGOVTCAN'' [Str ''yes'', Num 1, Num 10] \<noteq> Str ''No''"
    by code_simp
  have v2: "value_in odd_flags_df ''ISGOVTCAN'' [NaN, Num 5, Num 50] \<noteq> Str ''Yes''
      \<and> value_in odd_flags_df ''ISGOVTCAN'' [NaN, Num 5, Num 50] \<noteq> Str ''No''"
    by code_simp
  from t[THEN conjunct2, THEN conjunct1, rule_format, OF conjI[OF y n]] v1 v2
  have f: "[Str ''yes'', Num 1, Num 10] \<notin> set [[Str ''Yes'', Num 2, Num 20]]
        \<and> [Str ''yes'', Num 1, Num 10] \<notin> set [[Str ''No'', Num 6, Num 60]]
        \<and> [NaN, Num 5, Num 50] \<notin> set [[Str ''Yes'', Num 2, Num 20]]
        \<and> [NaN, Num 5, Num 50] \<notin> set [[Str ''No'', Num 6, Num 60]]"
    by simp
  have A: "\<exists>y n. df_yes stable_env odd_flags_df = Inr y \<and> df_no stable_env odd_flags_df = Inr n
        \<and> [Str ''yes'', Num 1, Num 10] \<notin> set (rows y) \<and> [Str ''yes'', Num 1, Num 10] \<notin> set (rows n)
        \<and> [NaN, Num 5, Num 50] \<notin> set (rows y) \<and> [NaN, Num 5, Num 50] \<notin> set (rows n)"
    using y n f by simp
  have l: "length (rows odd_flags_df) \<le> 1048576" "length (columns odd_flags_df) \<le> 16384"
    by (simp_all add: odd_flags_df_def)
  have "\<exists>wb. process_and_format stable_env (Inr odd_flags_df) ''out.xlsx'' = Inr wb"
    by (rule t[THEN conjunct2, THEN conjunct2, THEN conjunct1, rule_format])
       (simp only: c s l stable_env_fails simp_thms)
  then obtain wb where w: "process_and_format stable_env (Inr odd_flags_df) ''out.xlsx'' = Inr wb"
    by blast
  from t[THEN conjunct2, THEN conjunct2, THEN conjunct2, rule_format, OF w]
  obtain y' n' s1 s2 where
    e: "df_yes stable_env odd_flags_df = Inr y'" "df_no stable_env odd_flags_df = Inr n'"
       "wb = [s1, s2]" "title s1 = ''GovtCAN_Yes''" "title s2 = ''GovtCAN_No''"
       "tl (sheet_values s1) = body_values stable_env y' (take 1048575 (rows y'))"
       "tl (sheet_values s2) = body_values stable_env n' (take 1048575 (rows n'))"
    by (elim exE conjE) (rule that, assumption+)
  from e(1) y have y': "y' = \<lparr>columns = [''ISGOVTCAN'', ''DIVNCODE'', ''LASTDEMAND''],
            rows = [[Str ''Yes'', Num 2, Num 20]]\<rparr>" by simp
  from e(2) n have n': "n' = \<lparr>columns = [''ISGOVTCAN'', ''DIVNCODE'', ''LASTDEMAND''],
            rows = [[Str ''No'', Num 6, Num 60]]\<rparr>" by simp
  have b1: "tl (sheet_values s1) = [[XStr ''Yes'', XNum 2, XNum 20]]"
    unfolding e(6) y' by (simp add: body_values_def row_values_def stable_env_def plain_Yes_No)
  have b2: "tl (sheet_values s2) = [[XStr ''No'', XNum 6, XNum 60]]"
    unfolding e(7) n' by (simp add: body_values_def row_values_def stable_env_def plain_Yes_No)
  have B: "\<exists>s1 s2. process_and_format stable_env (Inr odd_flags_df) ''out.xlsx'' = Inr [s1, s2]
        \<and> title s1 = ''GovtCAN_Yes'' \<and> title s2 = ''GovtCAN_No''
        \<and> tl (sheet_values s1) = [[XStr ''Yes'', XNum 2, XNum 20]]
        \<and> tl (sheet_values s2) = [[XStr ''No'', XNum 6, XNum 60]]"
    using w e(3,4,5) b1 b2 by (intro exI[of _ s1] exI[of _ s2]) simp
  show ?thesis by (intro conjI stable_env_ok c s y n A B)
qed

subsection \<open>The header style and the widths on concrete tables\<close>



text \<open>
  Claim C7, at a cell holding the boolean False. A table with a column \<^verbatim>\<open>PAID\<close> whose
  one value is False is processed. In the sheet \<^verbatim>\<open>GovtCAN_Yes\<close> column 4 holds the header
  \<^verbatim>\<open>PAID\<close> and the value False. The width the code sets for column D is 6, the length of
  the header plus 2: under \<^verbatim>\<open>value or ""\<close> the cell False counts as the empty string. The
  width the specification states is 7, the length of the text \<^verbatim>\<open>False\<close> plus 2.
\<close>

theorem column_width_false_cell:
  "\<exists>wb. process_and_format stable_env (Inr paid_df) ''out.xlsx'' = Inr wb
      \<and> cell_value (hd wb) 1 4 = XStr ''PAID'' \<and> cell_value (hd wb) 2 4 = XBool False
      \<and> max_row (hd wb) = 2
      \<and> column_width (hd wb) ''D'' = Some 6
      \<and> spec_max_length stable_env (hd wb) 4 + 2 = 7"
proof -
  let ?s1 = "\<lparr>title = ''GovtCAN_Yes'',
      cells = [[header_cell (XStr ''ISGOVTCAN''), header_cell (XStr ''DIVNCODE''),
                header_cell (XStr ''LASTDEMAND''), header_cell (XStr ''PAID'')],
               [plain_cell (XStr ''Yes''), plain_cell (XNum 1), plain_cell (XNum 100),
                plain_cell (XBool False)]],
      column_width = (\<lambda>l. None)\<rparr>"
  have y: "df_yes stable_env paid_df = Inr paid_df" by code_simp
  have n: "df_no stable_env paid_df = Inr (paid_df\<lparr>rows := []\<rparr>)" by code_simp
  have p: "plain_text ''ISGOVTCAN''" "plain_text ''DIVNCODE''" "plain_text ''LASTDEMAND''"
    "plain_text ''PAID''" "plain_text ''Yes''"
    by (simp_all add: plain_text_def)
  have e1: "to_excel stable_env paid_df ''GovtCAN_Yes'' = Inr ?s1"
    by (simp add: to_excel_def paid_df_def header_values_def body_values_def row_values_def
          stable_env_def p)
  obtain s2 where e2: "to_excel stable_env (paid_df\<lparr>rows := []\<rparr>) ''GovtCAN_No'' = Inr s2"
    using to_excel_succeeds[of "paid_df\<lparr>rows := []\<rparr>" stable_env] by (auto simp: paid_df_def)
  have "case style_sheet stable_env ?s1 of Inl e \<Rightarrow> False
     | Inr ws \<Rightarrow> cell_value ws 1 4 = XStr ''PAID'' \<and> cell_value ws 2 4 = XBool False
          \<and> max_row ws = 2 \<and> column_width ws ''D'' = Some 6
          \<and> spec_max_length stable_env ws 4 + 2 = 7"
    by code_simp
  then obtain s1' where st1: "style_sheet stable_env ?s1 = Inr s1'"
    and f: "cell_value s1' 1 4 = XStr ''PAID''" "cell_value s1' 2 4 = XBool False"
      "max_row s1' = 2" "column_width s1' ''D'' = Some 6"
      "spec_max_length stable_env s1' 4 + 2 = 7"
    by (auto split: sum.splits)
  obtain s2' where st2: "style_sheet stable_env s2 = Inr s2'"
    using style_sheet_after_to_excel[OF e2] by blast
  have c: "check_required paid_df = Inr ()" by code_simp
  have "process_and_format stable_env (Inr paid_df) ''out.xlsx'' = Inr [s1', s2']"
    unfolding process_and_format_Inr_iff
    using c y n e1 e2 st1 st2 stable_env_fails by blast
  with f show ?thesis by auto
qed

subsection \<open>The archive of the combined operation\<close>







lemma allowed_data_csv: "allowed_file (filename (upload_of df))"
proof -
  have "allowed_file ''data.csv''" by code_simp
  then show ?thesis by (simp add: upload_of_def)
qed

lemma content_upload_of: "content (upload_of df) = Inr df"
  by (simp add: upload_of_def)




subsection \<open>No partial output\<close>

lemma process_and_format_complete:
  assumes "process_and_format ev file out = Inr wb"
  shows "map title wb = [''GovtCAN_Yes'', ''GovtCAN_No''] \<and> list_all header_styled wb"
proof -
  from process_and_format_values[OF assms] obtain y n where
    v: "map (\<lambda>ws. (title ws, sheet_values ws)) wb
          = [(''GovtCAN_Yes'', table_values ev y), (''GovtCAN_No'', table_values ev n)]"
    and h: "list_all header_styled wb"
    by (elim exE conjE) (rule that, assumption+)
  from v have "map title wb = [''GovtCAN_Yes'', ''GovtCAN_No'']"
    by (cases wb; cases "tl wb") auto
  then show ?thesis using h by simp
qed

lemma process_combined_files_complete:
  assumes "process_combined_files ev file_a file_b out = Inr wb"
  shows "map title wb = [''Combined''] \<and> list_all header_styled wb"
proof -
  from process_combined_files_values[OF assms] obtain df_a df_b where
    v: "map (\<lambda>ws. (title ws, sheet_values ws)) wb
          = [(''Combined'', table_values ev (combined_df df_a df_b))]"
    and h: "list_all header_styled wb"
    by (elim exE conjE) (rule that, assumption+)
  from v have "map title wb = [''Combined'']" by (cases wb) auto
  then show ?thesis using h by simp
qed

lemma single_try_Inl:
  assumes "process_and_format ev (content file) tout = Inl e"
  shows "\<exists>e'. single_try ev file tin tout = Inl e'"
proof (cases "single_try ev file tin tout")
  case (Inl e')
  then show ?thesis by blast
next
  case (Inr wb)
  then show ?thesis using assms unfolding single_try_Inr_iff by simp
qed

lemma combined_try_Inl:
  assumes "process_and_format ev (content file_a) (temp_out_a_path tp) = Inl e
     \<or> process_and_format ev (content file_b) (temp_out_b_path tp) = Inl e
     \<or> process_combined_files ev (content file_a) (content file_b) (temp_combined_path tp) = Inl e"
  shows "\<exists>e'. combined_try ev file_a file_b tp = Inl e'"
proof (cases "combined_try ev file_a file_b tp")
  case (Inl e')
  then show ?thesis by blast
next
  case (Inr entries)
  then show ?thesis using assms unfolding combined_try_Inr_iff by auto
qed

lemma process_single_SendFile_complete:
  assumes "process_single ev field category tin tout = SendFile name data"
  shows "\<exists>file wb. field = Some file \<and> process_and_format ev (content file) tout = Inr wb
     \<and> data = Xlsx wb \<and> map title wb = [''GovtCAN_Yes'', ''GovtCAN_No'']
     \<and> list_all header_styled wb"
proof -
  from assms obtain up wb where f: "field = Some up"
    and t: "single_try ev up tin tout = Inr wb" and d: "data = Xlsx wb"
    unfolding process_single_SendFile_iff by blast
  from t have p: "process_and_format ev (content up) tout = Inr wb"
    unfolding single_try_Inr_iff by simp
  note c = process_and_format_complete[OF p]
  show ?thesis
    by (rule exI[of _ up], rule exI[of _ wb]) (simp only: f p d c simp_thms)
qed

lemma process_combined_SendFile_complete:
  assumes "process_combined ev field_a field_b tp = SendFile name data"
  shows "\<exists>file_a file_b out_a out_b out_c. field_a = Some file_a \<and> field_b = Some file_b
     \<and> process_and_format ev (content file_a) (temp_out_a_path tp) = Inr out_a
     \<and> process_and_format ev (content file_b) (temp_out_b_path tp) = Inr out_b
     \<and> process_combined_files ev (content file_a) (content file_b) (temp_combined_path tp)
          = Inr out_c
     \<and> data = Zip [(''Unbilled_CAT_A.xlsx'', out_a), (''Unbilled_CAT_B.xlsx'', out_b),
                    (''Unbilled_CAT_A_and_B_Combined.xlsx'', out_c)]
     \<and> map title out_a = [''GovtCAN_Yes'', ''GovtCAN_No'']
     \<and> map title out_b = [''GovtCAN_Yes'', ''GovtCAN_No'']
     \<and> map title out_c = [''Combined'']
     \<and> list_all header_styled (out_a @ out_b @ out_c)"
proof -
  from assms obtain file_a file_b entries where
    f: "field_a = Some file_a" "field_b = Some file_b"
    and t: "combined_try ev file_a file_b tp = Inr entries"
    and d: "data = Zip entries"
    unfolding process_combined_SendFile_iff by blast
  from t obtain out_a out_b out_c where
    a: "process_and_format ev (content file_a) (temp_out_a_path tp) = Inr out_a"
    and b: "process_and_format ev (content file_b) (temp_out_b_path tp) = Inr out_b"
    and c: "process_combined_files ev (content file_a) (content file_b) (temp_combined_path tp)
             = Inr out_c"
    and e: "entries = [(''Unbilled_CAT_A.xlsx'', out_a), (''Unbilled_CAT_B.xlsx'', out_b),
                      (''Unbilled_CAT_A_and_B_Combined.xlsx'', out_c)]"
    unfolding combined_try_Inr_iff by blast
  note ca = process_and_format_complete[OF a] and cb = process_and_format_complete[OF b]
    and cc = process_combined_files_complete[OF c]
  have h: "list_all header_styled (out_a @ out_b @ out_c)" using ca cb cc by simp
  show ?thesis
    by (rule exI[of _ file_a], rule exI[of _ file_b], rule exI[of _ out_a], rule exI[of _ out_b],
        rule exI[of _ out_c]) (simp only: f a b c d e ca cb cc h simp_thms)
qed

text \<open>
  Claim C9. The single-category operation answers either with a redirect, which carries
  a flashed message and no file, or with a file; when it sends a file, that file is the
  workbook \<^verbatim>\<open>process_and_format\<close> returned normally: both sheets are there and both have
  the header style. Whenever the \<^verbatim>\<open>try\<close> block raises, and it raises whenever
  \<^verbatim>\<open>process_and_format\<close> does, the answer is a redirect. The same holds for the combined
  operation: a file sent is the archive of all three workbooks, each complete and styled,
  and whenever any of the three processing calls raises, the answer is a redirect.
\<close>

theorem no_partial_output:
  "(\<forall>name data. process_single ev field category tin tout = SendFile name data \<longrightarrow>
      (\<exists>file wb. field = Some file \<and> process_and_format ev (content file) tout = Inr wb
         \<and> data = Xlsx wb \<and> map title wb = [''GovtCAN_Yes'', ''GovtCAN_No'']
         \<and> list_all header_styled wb)) \<and>
   ((\<forall>file. field = Some file \<longrightarrow> (\<exists>e. single_try ev file tin tout = Inl e))
      \<longrightarrow> (\<exists>msg eo. process_single ev field category tin tout = Redirect msg eo)) \<and>
   (\<forall>file e. process_and_format ev (content file) tout = Inl e
      \<longrightarrow> (\<exists>e'. single_try ev file tin tout = Inl e')) \<and>
   (\<forall>name data. process_combined ev field_a field_b tp = SendFile name data \<longrightarrow>
      (\<exists>file_a file_b out_a out_b out_c. field_a = Some file_a \<and> field_b = Some file_b
         \<and> process_and_format ev (content file_a) (temp_out_a_path tp) = Inr out_a
         \<and> process_and_format ev (content file_b) (temp_out_b_path tp) = Inr out_b
         \<and> process_combined_files ev (content file_a) (content file_b) (temp_combined_path tp)
              = Inr out_c
         \<and> data = Zip [(''Unbilled_CAT_A.xlsx'', out_a), (''Unbilled_CAT_B.xlsx'', out_b),
                        (''Unbilled_CAT_A_and_B_Combined.xlsx'', out_c)]
         \<and> map title out_a = [''GovtCAN_Yes'', ''GovtCAN_No'']
         \<and> map title out_b = [''GovtCAN_Yes'', ''GovtCAN_No'']
         \<and> map title out_c = [''Combined'']
         \<and> list_all header_styled (out_a @ out_b @ out_c))) \<and>
   ((\<forall>file_a file_b. field_a = Some file_a \<and> field_b = Some file_b
        \<longrightarrow> (\<exists>e. combined_try ev file_a file_b tp = Inl e))
      \<longrightarrow> (\<exists>msg eo. process_combined ev field_a field_b tp = Redirect msg eo)) \<and>
   (\<forall>file_a file_b e.
        process_and_format ev (content file_a) (temp_out_a_path tp) = Inl e
      \<or> process_and_format ev (content file_b) (temp_out_b_path tp) = Inl e
      \<or> process_combined_files ev (content file_a) (content file_b) (temp_combined_path tp) = Inl e
      \<longrightarrow> (\<exists>e'. combined_try ev file_a file_b tp = Inl e'))"
proof (intro conjI allI impI)
  fix name data
  assume "process_single ev field category tin tout = SendFile name data"
  then show "\<exists>file wb. field = Some file \<and> process_and_format ev (content file) tout = Inr wb
         \<and> data = Xlsx wb \<and> map title wb = [''GovtCAN_Yes'', ''GovtCAN_No'']
         \<and> list_all header_styled wb"
    by (rule process_single_SendFile_complete)
next
  assume "\<forall>file. field = Some file \<longrightarrow> (\<exists>e. single_try ev file tin tout = Inl e)"
  then show "\<exists>msg eo. process_single ev field category tin tout = Redirect msg eo"
    by (rule process_single_Redirect)
next
  fix up :: upload and e
  assume "process_and_format ev (content up) tout = Inl e"
  then show "\<exists>e'. single_try ev up tin tout = Inl e'" by (rule single_try_Inl)
next
  fix name data
  assume "process_combined ev field_a field_b tp = SendFile name data"
  then show "\<exists>file_a file_b out_a out_b out_c. field_a = Some file_a \<and> field_b = Some file_b
         \<and> process_and_format ev (content file_a) (temp_out_a_path tp) = Inr out_a
         \<and> process_and_format ev (content file_b) (temp_out_b_path tp) = Inr out_b
         \<and> process_combined_files ev (content file_a) (content file_b) (temp_combined_path tp)
              = Inr out_c
         \<and> data = Zip [(''Unbilled_CAT_A.xlsx'', out_a), (''Unbilled_CAT_B.xlsx'', out_b),
                        (''Unbilled_CAT_A_and_B_Combined.xlsx'', out_c)]
         \<and> map title out_a = [''GovtCAN_Yes'', ''GovtCAN_No'']
         \<and> map title out_b = [''GovtCAN_Yes'', ''GovtCAN_No'']
         \<and> map title out_c = [''Combined'']
         \<and> list_all header_styled (out_a @ out_b @ out_c)"
    by (rule process_combined_SendFile_complete)
next
  assume "\<forall>file_a file_b. field_a = Some file_a \<and> field_b = Some file_b
        \<longrightarrow> (\<exists>e. combined_try ev file_a file_b tp = Inl e)"
  then show "\<exists>msg eo. process_combined ev field_a field_b tp = Redirect msg eo"
    by (rule process_combined_Redirect)
next
  fix file_a file_b :: upload and e
  assume "process_and_format ev (content file_a) (temp_out_a_path tp) = Inl e
      \<or> process_and_format ev (content file_b) (temp_out_b_path tp) = Inl e
      \<or> process_combined_files ev (content file_a) (content file_b) (temp_combined_path tp) = Inl e"
  then show "\<exists>e'. combined_try ev file_a file_b tp = Inl e'" by (rule combined_try_Inl)
qed

text \<open>
  Claim C9 where saving the styled workbook fails (the written, unstyled workbook is not
  sent), where nothing fails, and where the first file of the combined operation is
  processed and the second lacks a required column (no archive is sent).
\<close>

theorem no_partial_output_witness:
  "(\<exists>msg eo. process_single failing_save_env (Some (upload_of scenario_df)) ''A'' ''in.csv''
        ''out.xlsx'' = Redirect msg eo)
   \<and> (\<exists>wb. process_single stable_env (Some (upload_of scenario_df)) ''A'' ''in.csv'' ''out.xlsx''
          = SendFile ''Unbilled_CAT_A.xlsx'' (Xlsx wb)
        \<and> map title wb = [''GovtCAN_Yes'', ''GovtCAN_No''] \<and> list_all header_styled wb)
   \<and> (\<exists>msg eo. process_combined stable_env (Some (upload_of scenario_df))
        (Some (upload_of short_df)) some_paths = Redirect msg eo)"
proof -
  let ?up = "upload_of scenario_df"
  have A: "\<exists>msg eo. process_single failing_save_env (Some ?up) ''A'' ''in.csv''
        ''out.xlsx'' = Redirect msg eo"
  proof -
    note t = no_partial_output[of failing_save_env "Some ?up" "''A''" "''in.csv''" "''out.xlsx''"
        None None some_paths]
    have "\<exists>e. process_and_format failing_save_env (content ?up) ''out.xlsx'' = Inl e"
    proof (cases "process_and_format failing_save_env (content ?up) ''out.xlsx''")
      case (Inl e)
      then show ?thesis by blast
    next
      case (Inr wb)
      then have "\<not> fails failing_save_env (SaveXlsx ''out.xlsx'')"
        unfolding process_and_format_Inr_iff by blast
      then show ?thesis by (simp add: failing_save_env_def)
    qed
    then obtain e where "process_and_format failing_save_env (content ?up) ''out.xlsx'' = Inl e" ..
    then have "\<exists>e'. single_try failing_save_env ?up ''in.csv'' ''out.xlsx'' = Inl e'"
      using t[THEN conjunct2, THEN conjunct2, THEN conjunct1, rule_format] by blast
    then have "\<forall>f. Some ?up = Some f \<longrightarrow> (\<exists>e. single_try failing_save_env f ''in.csv'' ''out.xlsx'' = Inl e)"
      by simp
    then show ?thesis
      using t[THEN conjunct2, THEN conjunct1] by blast
  qed
  have B: "\<exists>wb. process_single stable_env (Some ?up) ''A'' ''in.csv'' ''out.xlsx''
          = SendFile ''Unbilled_CAT_A.xlsx'' (Xlsx wb)
        \<and> map title wb = [''GovtCAN_Yes'', ''GovtCAN_No''] \<and> list_all header_styled wb"
  proof -
    note t = no_partial_output[of stable_env "Some ?up" "''A''" "''in.csv''" "''out.xlsx''"
        None None some_paths]
    have c: "check_required scenario_df = Inr ()" by code_simp
    have s: "sortable_column scenario_df ''LASTDEMAND''" by code_simp
    have l: "length (rows scenario_df) \<le> 1048576" "length (columns scenario_df) \<le> 16384"
      by (simp_all add: scenario_df_def)
    obtain wb where p: "process_and_format stable_env (Inr scenario_df) ''out.xlsx'' = Inr wb"
      using process_and_format_succeeds[OF stable_env_ok c s l] stable_env_fails by blast
    then have "single_try stable_env ?up ''in.csv'' ''out.xlsx'' = Inr wb"
      unfolding single_try_Inr_iff using stable_env_fails by (simp add: content_upload_of)
    then have r: "process_single stable_env (Some ?up) ''A'' ''in.csv'' ''out.xlsx''
          = SendFile ''Unbilled_CAT_A.xlsx'' (Xlsx wb)"
      unfolding process_single_SendFile_iff
      using allowed_data_csv[of scenario_df] allowed_file_nonempty by auto
    from t[THEN conjunct1, rule_format, OF r] obtain wb' where
      "Xlsx wb = Xlsx wb'" "map title wb' = [''GovtCAN_Yes'', ''GovtCAN_No'']"
      "list_all header_styled wb'"
      by (elim exE conjE) (rule that, assumption+)
    then have "map title wb = [''GovtCAN_Yes'', ''GovtCAN_No''] \<and> list_all header_styled wb"
      by simp
    with r show ?thesis by (intro exI[of _ wb] conjI) simp_all
  qed
  have C: "\<exists>msg eo. process_combined stable_env (Some ?up)
        (Some (upload_of short_df)) some_paths = Redirect msg eo"
  proof -
    note t = no_partial_output[of stable_env None "''A''" "''in.csv''" "''out.xlsx''"
        "Some ?up" "Some (upload_of short_df)" some_paths]
    have "process_and_format stable_env (content (upload_of short_df)) (temp_out_b_path some_paths)
        = Inl (ValueError required_msg)"
      by (simp add: content_upload_of process_and_format_def and_then_def check_required_def
          short_df_def required_cols_def)
    then have "\<exists>e'. combined_try stable_env ?up (upload_of short_df) some_paths = Inl e'"
      using t[THEN conjunct2, THEN conjunct2, THEN conjunct2, THEN conjunct2, THEN conjunct2,
              rule_format]
      by blast
    then have "\<forall>fa fb. Some ?up = Some fa \<and> Some (upload_of short_df) = Some fb
        \<longrightarrow> (\<exists>e. combined_try stable_env fa fb some_paths = Inl e)" by simp
    then show ?thesis
      using t[THEN conjunct2, THEN conjunct2, THEN conjunct2, THEN conjunct2, THEN conjunct1]
      by blast
  qed
  show ?thesis by (intro conjI A B C)
qed

end
